(* ===== verification/Prelude.thy ===== *)
theory Prelude
  imports Main "HOL-Library.Word" "HOL-Library.List_Lexorder" "HOL-Library.Product_Lexorder"
begin

text \<open>
  What every component shares: the machine words of the source, byte strings and their
  little-endian layout, the values a panic takes, the result type that carries it, loops that
  may panic, and \<open>u64::saturating_add\<close>.

  Rust's integers keep their width. The services are built in the release profile, where
  \<open>+\<close>, \<open>-\<close> and negation wrap; a property that needs them not to wrap says so in its bounds.
\<close>

unbundle bit_operations_syntax

named_theorems result_simps \<comment> \<open>equations of the result type and its loops\<close>
named_theorems layout_simps \<comment> \<open>lengths and slices of byte layouts\<close>

section \<open>Words and byte strings\<close>

type_synonym u8 = "8 word"
type_synonym u16 = "16 word"
type_synonym u32 = "32 word"
type_synonym u64 = "64 word"
type_synonym bytes = "u8 list"

text \<open>A \<open>[u8; 32]\<close> is a byte list of length 32; the predicates say so where it matters.\<close>

definition is_bytes :: "nat \<Rightarrow> bytes \<Rightarrow> bool" where
  "is_bytes n b \<longleftrightarrow> length b = n"

definition zero_bytes :: "nat \<Rightarrow> bytes" where
  "zero_bytes n = replicate n 0"

text \<open>\<open>to_le_bytes\<close> and \<open>from_le_bytes\<close> of the integer types, for \<open>n\<close> bytes.\<close>

definition to_le_bytes :: "nat \<Rightarrow> 'a::len word \<Rightarrow> bytes" where
  "to_le_bytes n w = map (\<lambda>i. ucast (drop_bit (8 * i) w)) [0..<n]"

fun from_le_bytes :: "bytes \<Rightarrow> 'a::len word" where
  "from_le_bytes [] = 0"
| "from_le_bytes (b # bs) = ucast b OR push_bit 8 (from_le_bytes bs)"

lemma length_zero_bytes [simp, layout_simps]: "length (zero_bytes n) = n"
  by (simp add: zero_bytes_def)

lemma finite_is_bytes [simp]: "finite {b. is_bytes n b}"
  using finite_lists_length_eq [of "UNIV :: u8 set" n] by (simp add: is_bytes_def)

lemma length_to_le_bytes [simp, layout_simps]: "length (to_le_bytes n w) = n"
  by (simp add: to_le_bytes_def)

lemma bit_from_le_bytes:
  "bit (from_le_bytes bs :: 'a::len word) i \<longleftrightarrow>
     i < LENGTH('a) \<and> i div 8 < length bs \<and> bit (bs ! (i div 8)) (i mod 8)"
proof (induction bs arbitrary: i)
  case Nil
  show ?case by simp
next
  case (Cons b bs)
  show ?case
  proof (cases "i < 8")
    case True
    then show ?thesis by (auto simp: bit_or_iff bit_push_bit_iff bit_ucast_iff)
  next
    case False
    then obtain j where j: "i = j + 8" by (metis add.commute le_Suc_ex not_le)
    then have [simp]: "i div 8 = Suc (j div 8)" "i mod 8 = j mod 8" by simp_all
    have "\<not> bit b i" using False by (auto dest: bit_imp_le_length)
    then show ?thesis using False
      by (auto simp: bit_or_iff bit_push_bit_iff bit_ucast_iff Cons.IH) (auto simp: j)
  qed
qed

lemma from_to_le_bytes [simp]:
  fixes w :: "'a::len word"
  assumes "LENGTH('a) \<le> 8 * n"
  shows "from_le_bytes (to_le_bytes n w) = w"
proof (rule bit_word_eqI)
  fix i assume i: "i < LENGTH('a)"
  then have "i div 8 < n" using assms by linarith
  moreover have "8 * (i div 8) + i mod 8 = i" "i mod 8 < 8" by simp_all
  ultimately show "bit (from_le_bytes (to_le_bytes n w) :: 'a word) i \<longleftrightarrow> bit w i"
    using i by (simp add: bit_from_le_bytes to_le_bytes_def bit_ucast_iff bit_drop_bit_eq)
qed

lemma to_le_bytes_inj:
  fixes v w :: "'a::len word"
  assumes "LENGTH('a) \<le> 8 * n"
  shows "to_le_bytes n v = to_le_bytes n w \<longleftrightarrow> v = w"
  by (metis assms from_to_le_bytes)

lemmas to_le_bytes_eq_u32 = to_le_bytes_inj [where 'a = 32 and n = 4, simplified]
lemmas to_le_bytes_eq_u64 = to_le_bytes_inj [where 'a = 64 and n = 8, simplified]

declare to_le_bytes_eq_u32 [simp] to_le_bytes_eq_u64 [simp]

lemma even_unat [simp]: "even (unat (w :: 'a::len word)) \<longleftrightarrow> even w"
  using bit_unsigned_iff [of w 0, where 'a = nat] by (simp add: bit_0)

section \<open>Panics and the result type\<close>

text \<open>
  A Rust panic (an \<open>unwrap\<close> or \<open>expect\<close> of an error, a failed \<open>assert!\<close>, \<open>unimplemented!\<close>,
  a slice off a character boundary, a division by zero) ends the run: it is the left value of
  \<open>panic + 'a\<close>. Errors that the code returns as \<open>None\<close> or \<open>Err\<close> stay ordinary values.
\<close>

datatype panic =
  KeyCollision      \<comment> \<open>\<open>unimplemented!("error on key collision")\<close>\<close>
| AdminKey          \<comment> \<open>\<open>expect("Hard-coded Admin key")\<close>\<close>
| AssertFailed      \<comment> \<open>\<open>assert!\<close>\<close>
| CharBoundary      \<comment> \<open>a string slice that cuts a character\<close>
| UnwrapFailed      \<comment> \<open>\<open>unwrap\<close> or \<open>expect\<close> of an error\<close>
| RemainderByZero   \<comment> \<open>\<open>%\<close> with a zero divisor\<close>
| Unreachable       \<comment> \<open>\<open>unreachable!\<close>\<close>

definition bind_res :: "'e + 'a \<Rightarrow> ('a \<Rightarrow> 'e + 'b) \<Rightarrow> 'e + 'b" where
  "bind_res r f = (case r of Inl e \<Rightarrow> Inl e | Inr x \<Rightarrow> f x)"

lemma bind_res_simps [simp, result_simps]:
  "bind_res (Inl e) f = Inl e"
  "bind_res (Inr x) f = f x"
  by (simp_all add: bind_res_def)

lemma bind_res_Inr_iff [result_simps]:
  "bind_res r f = Inr y \<longleftrightarrow> (\<exists>x. r = Inr x \<and> f x = Inr y)"
  by (cases r) auto

text \<open>A \<open>for\<close> loop whose body may panic.\<close>

fun fold_res :: "('a \<Rightarrow> 's \<Rightarrow> 'e + 's) \<Rightarrow> 'a list \<Rightarrow> 's \<Rightarrow> 'e + 's" where
  "fold_res f [] s = Inr s"
| "fold_res f (x # xs) s = bind_res (f x s) (fold_res f xs)"

lemma fold_res_append [result_simps]:
  "fold_res f (xs @ ys) s = bind_res (fold_res f xs s) (fold_res f ys)"
proof (induction xs arbitrary: s)
  case (Cons x xs)
  then show ?case by (cases "f x s") auto
qed simp

lemma fold_res_map: "fold_res f (map g xs) s = fold_res (\<lambda>x. f (g x)) xs s"
  by (induction xs arbitrary: s) (auto intro: arg_cong2 [where f = bind_res])

lemma fold_res_invariant:
  assumes "fold_res f xs s = Inr t" and "I s"
    and "\<And>x s s'. x \<in> set xs \<Longrightarrow> I s \<Longrightarrow> f x s = Inr s' \<Longrightarrow> I s'"
  shows "I t"
  using assms
proof (induction xs arbitrary: s)
  case (Cons x xs)
  from Cons.prems(1) obtain s' where s': "f x s = Inr s'" "fold_res f xs s' = Inr t"
    by (auto simp: bind_res_Inr_iff)
  show ?case
    using Cons.IH [OF s'(2)] Cons.prems(2,3) s'(1) by (meson list.set_intros)
qed simp

text \<open>A loop none of whose steps panics returns.\<close>

lemma fold_res_total:
  assumes "I s"
    and "\<And>x s. x \<in> set xs \<Longrightarrow> I s \<Longrightarrow> \<exists>s'. f x s = Inr s' \<and> I s'"
  shows "\<exists>t. fold_res f xs s = Inr t \<and> I t"
  using assms
proof (induction xs arbitrary: s)
  case (Cons x xs)
  obtain s' where "f x s = Inr s'" "I s'" using Cons.prems by force
  then show ?case using Cons.IH [of s'] Cons.prems(2) by auto
qed simp

section \<open>Saturating addition and the signed view\<close>

definition saturating_add :: "u64 \<Rightarrow> u64 \<Rightarrow> u64" where
  "saturating_add a b = (if unat a + unat b < 2 ^ 64 then a + b else - 1)"

lemma unat_saturating_add: "unat (saturating_add a b) = min (unat a + unat b) (2 ^ 64 - 1)"
proof (cases "unat a + unat b < 2 ^ 64")
  case True
  then show ?thesis by (simp add: saturating_add_def unat_plus_if')
next
  case False
  have "unat (- 1 :: u64) = 2 ^ 64 - 1" by (simp add: unsigned_minus_1_eq_mask mask_eq_exp_minus_1)
  with False show ?thesis by (simp add: saturating_add_def)
qed

lemma unat_saturating_add_exact [simp]:
  "unat a + unat b < 2 ^ 64 \<Longrightarrow> unat (saturating_add a b) = unat a + unat b"
  by (simp add: unat_saturating_add)

lemma saturating_add_0 [simp]: "saturating_add 0 a = a"
  using unsigned_less [of a, where 'a = nat] by (simp add: saturating_add_def)

text \<open>\<open>x as i64\<close> keeps the bits; \<open>sint\<close> reads them. Below \<open>2 ^ 63\<close> the value is kept.\<close>

lemma sint_u64: "sint (x :: u64) = (if unat x < 2 ^ 63 then int (unat x) else int (unat x) - 2 ^ 64)"
proof -
  let ?n = "int (unat x)"
  have b: "?n < 2 ^ 64" using unsigned_less [of x, where 'a = int] by simp
  have "sint x = (?n + 2 ^ 63) mod 2 ^ 64 - 2 ^ 63"
    using int_word_sint [of ?n, where 'a = 64] by simp
  also have "(?n + 2 ^ 63) mod 2 ^ 64 = (if ?n < 2 ^ 63 then ?n + 2 ^ 63 else ?n - 2 ^ 63)"
  proof (cases "?n < 2 ^ 63")
    case True
    then show ?thesis by (simp add: mod_pos_pos_trivial)
  next
    case False
    have "(?n + 2 ^ 63) mod 2 ^ 64 = (?n - 2 ^ 63 + 2 ^ 64) mod 2 ^ 64" by (simp add: add.commute)
    also have "\<dots> = (?n - 2 ^ 63) mod 2 ^ 64" by (rule mod_add_self2)
    also have "\<dots> = ?n - 2 ^ 63" using b False by (intro mod_pos_pos_trivial) simp_all
    finally show ?thesis using False by simp
  qed
  also have "(?n < 2 ^ 63) = (unat x < 2 ^ 63)"
    by (metis of_nat_less_iff of_nat_numeral of_nat_power)
  finally show ?thesis by (cases "unat x < 2 ^ 63") (simp_all only: if_True if_False, simp_all)
qed

lemma sint_u64_small: "unat (x :: u64) < 2 ^ 63 \<Longrightarrow> sint x = int (unat x)"
  by (simp add: sint_u64)

lemma sint_word_of_int_u64:
  assumes "\<bar>z\<bar> < 2 ^ 63"
  shows "sint (word_of_int z :: u64) = z"
proof -
  have "sint (word_of_int z :: u64) = (z + 2 ^ 63) mod 2 ^ 64 - 2 ^ 63"
    using int_word_sint [of z, where 'a = 64] by simp
  also have "(z + 2 ^ 63) mod 2 ^ 64 = z + 2 ^ 63"
    using assms by (intro mod_pos_pos_trivial) auto
  finally show ?thesis by simp
qed

lemma unat_uminus_u64: "a \<noteq> 0 \<Longrightarrow> unat (- a :: u64) = 2 ^ 64 - unat a"
  using unat_sub_if' [of 0 a] by (simp add: unat_eq_zero)

section \<open>Sums with one or two entries changed\<close>

lemma sum_change_one:
  fixes f g :: "'a \<Rightarrow> nat"
  assumes "finite A" "x \<in> A" "\<And>z. z \<in> A \<Longrightarrow> z \<noteq> x \<Longrightarrow> g z = f z"
  shows "sum g A + f x = sum f A + g x"
  using assms by (simp add: sum.remove [of A x])

lemma sum_change_two:
  fixes f g :: "'a \<Rightarrow> nat"
  assumes "finite A" "x \<in> A" "y \<in> A" "x \<noteq> y"
    and "\<And>z. z \<in> A \<Longrightarrow> z \<noteq> x \<Longrightarrow> z \<noteq> y \<Longrightarrow> g z = f z"
    and "g x + g y = f x + f y"
  shows "sum g A = sum f A"
proof -
  have two: "sum h A = h x + (h y + sum h (A - {x} - {y}))" for h :: "'a \<Rightarrow> nat"
    using assms(1-4) by (simp add: sum.remove [of A x] sum.remove [of "A - {x}" y])
  have "sum g (A - {x} - {y}) = sum f (A - {x} - {y})" by (rule sum.cong) (auto simp: assms(5))
  then show ?thesis using assms(6) two [of f] two [of g] by simp
qed

lemma sum_two_le:
  fixes f :: "'a \<Rightarrow> nat"
  assumes "finite A" "x \<in> A" "y \<in> A" "x \<noteq> y"
  shows "f x + f y \<le> sum f A"
proof -
  have "sum f A = f x + (f y + sum f (A - {x} - {y}))"
    using assms by (simp add: sum.remove [of A x] sum.remove [of "A - {x}" y])
  then show ?thesis by simp
qed

end
