(* ===== verification/Files.thy ===== *)
theory Files
  imports Prelude
begin

text \<open>
  The files the client programs read and write (\<open>std::fs\<close>): a map from paths to contents, and the
  paths at which a new file can be created. A file that is there can be opened for reading and for
  writing.
\<close>

type_synonym path = "bytes list"

record file_system =
  files :: "path \<rightharpoonup> bytes"
  creatable :: "path \<Rightarrow> bool"

text \<open>\<open>write_all\<close> at the start of an opened file keeps the bytes beyond what it writes.\<close>

definition overwrite_start :: "bytes \<Rightarrow> bytes \<Rightarrow> bytes" where
  "overwrite_start new old = new @ drop (length new) old"

text \<open>\<open>File::create_new(p).unwrap()\<close> and \<open>File::create(p).unwrap()\<close>, with the writes that follow.\<close>

definition create_new :: "path \<Rightarrow> bytes \<Rightarrow> file_system \<Rightarrow> panic + file_system" where
  "create_new p content fs =
     (if files fs p = None \<and> creatable fs p then Inr (fs\<lparr>files := (files fs)(p \<mapsto> content)\<rparr>)
      else Inl UnwrapFailed)"

definition create_file :: "path \<Rightarrow> bytes \<Rightarrow> file_system \<Rightarrow> panic + file_system" where
  "create_file p content fs =
     (if files fs p \<noteq> None \<or> creatable fs p then Inr (fs\<lparr>files := (files fs)(p \<mapsto> content)\<rparr>)
      else Inl UnwrapFailed)"

text \<open>\<open>File::open(p).unwrap()\<close> and \<open>read_to_end\<close>.\<close>

definition read_file :: "path \<Rightarrow> file_system \<Rightarrow> panic + bytes" where
  "read_file p fs = (case files fs p of None \<Rightarrow> Inl UnwrapFailed | Some content \<Rightarrow> Inr content)"

lemma create_file_Inr:
  "create_file p c fs = Inr fs' \<longleftrightarrow>
     (files fs p \<noteq> None \<or> creatable fs p) \<and> fs' = fs\<lparr>files := (files fs)(p \<mapsto> c)\<rparr>"
  by (auto simp: create_file_def)

lemma read_file_Inr: "read_file p fs = Inr c \<longleftrightarrow> files fs p = Some c"
  by (simp add: read_file_def split: option.split)

lemma overwrite_same_length: "length old = length new \<Longrightarrow> overwrite_start new old = new"
  by (simp add: overwrite_start_def)

end
