(* ===== verification/Common.thy ===== *)
theory Common
  imports Prelude
begin

text \<open>
  The crate \<open>token-ledger-common\<close> (\<open>src/lib.rs\<close>): accounts, tokens and operations, the message a
  signature covers, signature checking, the canonical direction of a transfer, key pairs, and
  the storage key of a balance. BLAKE2b (\<open>blake2b_simd\<close>), Ed25519 (\<open>ed25519_consensus\<close>) and the
  codec are other crates: they are the fields of the record \<open>crypto\<close>, an argument of the
  definitions that use them. What the code relies on from them are the predicates
  \<open>blake2b_ok\<close>, \<open>ed25519_ok\<close> and \<open>codec_hash_ok\<close>.
\<close>

section \<open>Data\<close>

type_synonym token_id = u32
type_synonym account_id = bytes
type_synonym hash = bytes
type_synonym ed_signature = bytes
type_synonym i64 = "64 word" \<comment> \<open>read with \<open>sint\<close>\<close>
type_synonym counterparts = "account_id \<times> account_id"

datatype operation =
  Mint (mint_to: account_id) (op_token: token_id) (op_amount: u64)
| Transfer (transfer_from: account_id) (transfer_to: account_id) (op_token: token_id) (op_amount: u64)

record solicit =
  on_root :: hash
  sol_hash :: hash
  sol_len :: u64

record signed_operation =
  operation :: operation
  signature :: ed_signature

record keypair =
  signing_key :: bytes
  public_key :: bytes

fun wf_operation :: "operation \<Rightarrow> bool" where
  "wf_operation (Mint to t a) \<longleftrightarrow> is_bytes 32 to"
| "wf_operation (Transfer from to t a) \<longleftrightarrow> is_bytes 32 from \<and> is_bytes 32 to"

section \<open>The crates the code calls\<close>

record crypto =
  blake2b :: "bytes \<Rightarrow> bytes"                  \<comment> \<open>\<open>blake2b_simd::State::new\<close>, 64 bytes out\<close>
  blake2b_256 :: "bytes \<Rightarrow> bytes"              \<comment> \<open>\<open>Params::new().hash_length(32)\<close>\<close>
  sk_from :: "bytes \<Rightarrow> bytes"                  \<comment> \<open>\<open>SigningKey::from\<close>\<close>
  verification_key :: "bytes \<Rightarrow> bytes"         \<comment> \<open>\<open>SigningKey::verification_key\<close>, as bytes\<close>
  sk_sign :: "bytes \<Rightarrow> bytes \<Rightarrow> ed_signature"  \<comment> \<open>\<open>SigningKey::sign\<close>\<close>
  vk_try_from :: "bytes \<Rightarrow> bytes option"       \<comment> \<open>\<open>VerificationKey::try_from\<close>\<close>
  vk_verify :: "bytes \<Rightarrow> ed_signature \<Rightarrow> bytes \<Rightarrow> bool" \<comment> \<open>\<open>VerificationKey::verify\<close>\<close>
  encode_hash :: "hash \<Rightarrow> bytes"               \<comment> \<open>\<open>Encode\<close> of a \<open>[u8; 32]\<close>\<close>

definition blake2b_ok :: "(bytes \<Rightarrow> bytes) \<Rightarrow> bool" where
  "blake2b_ok B \<longleftrightarrow> (\<forall>m. length (B m) = 64)"

definition ed25519_ok :: "crypto \<Rightarrow> bool" where
  "ed25519_ok C \<longleftrightarrow>
     (\<forall>sk m. vk_verify C (verification_key C sk) (sk_sign C sk m) m) \<and>
     (\<forall>sk. vk_try_from C (verification_key C sk) = Some (verification_key C sk)) \<and>
     (\<forall>sk. length (verification_key C sk) = 32) \<and>
     (\<forall>sk m. length (sk_sign C sk m) = 64)"

definition codec_hash_ok :: "crypto \<Rightarrow> bool" where
  "codec_hash_ok C \<longleftrightarrow> (\<forall>h. length h = 32 \<longrightarrow> encode_hash C h = h)"

section \<open>Fixed buffers\<close>

text \<open>\<open>buf[i..i + src.len()].copy_from_slice(src)\<close>.\<close>

definition copy_at :: "nat \<Rightarrow> bytes \<Rightarrow> bytes \<Rightarrow> bytes" where
  "copy_at i src buf = take i buf @ src @ drop (i + length src) buf"

lemma length_copy_at [layout_simps]:
  "i + length src \<le> length buf \<Longrightarrow> length (copy_at i src buf) = length buf"
  by (simp add: copy_at_def)

lemma copy_at_append [layout_simps]:
  "length pre = i \<Longrightarrow> copy_at i src (pre @ zero_bytes n) = pre @ src @ zero_bytes (n - length src)"
  by (simp add: copy_at_def zero_bytes_def)

lemma copy_at_zero [layout_simps]: "copy_at 0 src (zero_bytes n) = src @ zero_bytes (n - length src)"
  by (simp add: copy_at_def zero_bytes_def)

section \<open>The signed message\<close>

fun signing_raw :: "operation \<Rightarrow> bytes" where
  "signing_raw (Mint to token_id amount) =
     copy_at 36 (to_le_bytes 8 amount)
       (copy_at 32 (to_le_bytes 4 token_id)
         (copy_at 0 to (zero_bytes 72)))"
| "signing_raw (Transfer from to token_id amount) =
     copy_at 68 (to_le_bytes 8 amount)
       (copy_at 64 (to_le_bytes 4 token_id)
         (copy_at 32 to
           (copy_at 0 from (zero_bytes 80))))"

definition signing_message :: "crypto \<Rightarrow> operation \<Rightarrow> hash" where
  "signing_message C op = take 32 (blake2b_256 C (signing_raw op))"

definition verify_signature :: "crypto \<Rightarrow> operation \<Rightarrow> ed_signature \<Rightarrow> bytes \<Rightarrow> string + unit" where
  "verify_signature C op sig key =
     (let message = encode_hash C (signing_message C op)
      in if vk_verify C key sig message then Inr ()
         else Inl ''Signature verification failed for message'')"

section \<open>Key pairs\<close>

definition keypair_from_seed :: "crypto \<Rightarrow> bytes \<Rightarrow> keypair" where
  "keypair_from_seed C seed =
     (let sk = sk_from C seed
      in \<lparr>signing_key = sk, public_key = verification_key C sk\<rparr>)"

definition keypair_sign :: "crypto \<Rightarrow> keypair \<Rightarrow> bytes \<Rightarrow> ed_signature" where
  "keypair_sign C kp message = sk_sign C (signing_key kp) message"

definition generate_keypair :: "crypto \<Rightarrow> u64 \<Rightarrow> keypair" where
  "generate_keypair C seed = keypair_from_seed C (copy_at 0 (to_le_bytes 8 seed) (zero_bytes 32))"

text \<open>The seed is \<open>b"admin"\<close> in a zeroed buffer.\<close>

definition admin_keypair :: "crypto \<Rightarrow> keypair" where
  "admin_keypair C =
     keypair_from_seed C (copy_at 0 [0x61, 0x64, 0x6d, 0x69, 0x6e] (zero_bytes 32))"

definition admin :: "crypto \<Rightarrow> bytes" where
  "admin C = public_key (admin_keypair C)"

section \<open>Canonical transfers\<close>

definition canonical_transfer ::
    "account_id \<Rightarrow> account_id \<Rightarrow> token_id \<Rightarrow> u64 \<Rightarrow> (token_id \<times> counterparts) \<times> i64" where
  "canonical_transfer from to token_id amount =
     (let (cs, amt) = (if from < to then ((from, to), amount) else ((to, from), - amount))
      in ((token_id, (fst cs, snd cs)), amt))"

section \<open>Storage keys\<close>

definition PREFIX_BALANCE :: bytes where
  "PREFIX_BALANCE = [0x62, 0x61, 0x6c, 0x3a]" \<comment> \<open>\<open>b"bal:"\<close>\<close>

definition BALANCE_KEY_SIZE :: nat where
  "BALANCE_KEY_SIZE = 4 + 4 + 32"

definition balance_key :: "token_id \<Rightarrow> account_id \<Rightarrow> bytes" where
  "balance_key token_id account =
     (let PREFIX_LENGTH = length PREFIX_BALANCE; TOKEN_LENGTH = 4; ACCOUNT_LENGTH = 32
      in copy_at (PREFIX_LENGTH + TOKEN_LENGTH) account
           (copy_at PREFIX_LENGTH (to_le_bytes TOKEN_LENGTH token_id)
             (copy_at 0 PREFIX_BALANCE
               (zero_bytes (PREFIX_LENGTH + TOKEN_LENGTH + ACCOUNT_LENGTH)))))"

section \<open>Layout lemmas\<close>

lemma signing_raw_Mint:
  "length to = 32 \<Longrightarrow>
     signing_raw (Mint to t a) = to @ to_le_bytes 4 t @ to_le_bytes 8 a @ zero_bytes 28"
  using copy_at_append [of "to @ to_le_bytes 4 t" 36 "to_le_bytes 8 a" 36]
  by (simp add: layout_simps)

lemma signing_raw_Transfer:
  "length from = 32 \<Longrightarrow> length to = 32 \<Longrightarrow>
     signing_raw (Transfer from to t a)
       = from @ to @ to_le_bytes 4 t @ to_le_bytes 8 a @ zero_bytes 4"
  using copy_at_append [of "from @ to" 64 "to_le_bytes 4 t" 16]
    copy_at_append [of "from @ to @ to_le_bytes 4 t" 68 "to_le_bytes 8 a" 12]
  by (simp add: layout_simps)

lemma length_signing_raw:
  "wf_operation op \<Longrightarrow> length (signing_raw op) = (case op of Mint _ _ _ \<Rightarrow> 72 | Transfer _ _ _ _ \<Rightarrow> 80)"
  by (cases op) (simp_all add: is_bytes_def signing_raw_Mint signing_raw_Transfer del: signing_raw.simps)

lemma balance_key_layout:
  "length acc = 32 \<Longrightarrow> balance_key t acc = PREFIX_BALANCE @ to_le_bytes 4 t @ acc"
  using copy_at_append [of "PREFIX_BALANCE @ to_le_bytes 4 t" 8 acc 32]
    copy_at_append [of PREFIX_BALANCE 4 "to_le_bytes 4 t" 36]
  by (simp add: balance_key_def PREFIX_BALANCE_def layout_simps zero_bytes_def copy_at_def)

lemma length_balance_key: "length acc = 32 \<Longrightarrow> length (balance_key t acc) = BALANCE_KEY_SIZE"
  by (simp add: balance_key_layout PREFIX_BALANCE_def BALANCE_KEY_SIZE_def)

lemma balance_key_not_empty [simp]: "balance_key t acc \<noteq> []"
  by (simp add: balance_key_def PREFIX_BALANCE_def copy_at_def Let_def)

lemma balance_key_eq [simp]:
  "length acc = 32 \<Longrightarrow> length acc' = 32 \<Longrightarrow>
     balance_key t acc = balance_key t' acc' \<longleftrightarrow> t = t' \<and> acc = acc'"
  by (auto simp: balance_key_layout)

lemma canonical_transfer_less:
  "from < to \<Longrightarrow> canonical_transfer from to t a = ((t, from, to), a)"
  by (simp add: canonical_transfer_def)

lemma canonical_transfer_geq:
  "\<not> from < to \<Longrightarrow> canonical_transfer from to t a = ((t, to, from), - a)"
  by (simp add: canonical_transfer_def)

lemma fst_canonical_transfer_ordered:
  "fst (canonical_transfer from to t a) = (t, x, y) \<Longrightarrow> from \<noteq> to \<Longrightarrow> x < y"
  by (auto simp: canonical_transfer_def not_less split: if_splits)

section \<open>A concrete instance\<close>

text \<open>
  Transparent signatures (the key followed by the message), for the concrete inputs of the
  witnesses: they meet \<open>ed25519_ok\<close> and \<open>codec_hash_ok\<close>.
\<close>

definition demo_crypto :: crypto where
  "demo_crypto =
     \<lparr>blake2b = (\<lambda>m. take 64 (m @ zero_bytes 64)),
      blake2b_256 = (\<lambda>m. take 32 (m @ zero_bytes 32)),
      sk_from = (\<lambda>seed. seed),
      verification_key = (\<lambda>sk. take 32 (sk @ zero_bytes 32)),
      sk_sign = (\<lambda>sk m. take 64 (take 32 (sk @ zero_bytes 32) @ m @ zero_bytes 64)),
      vk_try_from = (\<lambda>k. if length k = 32 then Some k else None),
      vk_verify = (\<lambda>k s m. s = take 64 (k @ m @ zero_bytes 64)),
      encode_hash = (\<lambda>h. h)\<rparr>"

definition demo_account :: "u8 \<Rightarrow> account_id" where
  "demo_account n = zero_bytes 31 @ [n]"

definition demo_signed :: "bytes \<Rightarrow> operation \<Rightarrow> signed_operation" where
  "demo_signed sk op =
     \<lparr>operation = op, signature = sk_sign demo_crypto sk (signing_message demo_crypto op)\<rparr>"

lemma demo_crypto_ok [simp]: "ed25519_ok demo_crypto" "codec_hash_ok demo_crypto"
  by (auto simp: ed25519_ok_def codec_hash_ok_def demo_crypto_def)

lemma demo_account_bytes [simp]: "is_bytes 32 (demo_account n)" "length (demo_account n) = 32"
  by (simp_all add: is_bytes_def demo_account_def)

lemma demo_account_eq [simp]: "demo_account m = demo_account n \<longleftrightarrow> m = n"
  by (simp add: demo_account_def)

lemma demo_verify [simp]:
  "length k = 32 \<Longrightarrow>
     verify_signature demo_crypto op (signature (demo_signed k op)) k = Inr ()"
  by (simp add: verify_signature_def demo_signed_def demo_crypto_def Let_def)

lemma demo_signed_operation [simp]: "operation (demo_signed k op) = op"
  by (simp add: demo_signed_def)

lemma demo_vk_try_from [simp]: "length k = 32 \<Longrightarrow> vk_try_from demo_crypto k = Some k"
  by (simp add: demo_crypto_def)

lemma demo_admin_length [simp]: "length (admin demo_crypto) = 32"
  by (simp add: admin_def admin_keypair_def keypair_from_seed_def demo_crypto_def Let_def)

section \<open>Properties\<close>

text \<open>
  C36. The bytes an operation's signature covers determine the operation: two well-formed
  operations with the same preimage are the same, the two kinds never share one.
\<close>

theorem signing_raw_injective:
  assumes "wf_operation op" "wf_operation op'"
  shows "signing_raw op = signing_raw op' \<longleftrightarrow> op = op'"
proof
  assume eq: "signing_raw op = signing_raw op'"
  then have "(case op of Mint _ _ _ \<Rightarrow> 72 | Transfer _ _ _ _ \<Rightarrow> 80)
      = (case op' of Mint _ _ _ \<Rightarrow> 72 | Transfer _ _ _ _ \<Rightarrow> (80::nat))"
    using length_signing_raw [OF assms(1)] length_signing_raw [OF assms(2)] by simp
  then show "op = op'"
    using assms eq
    by (cases op; cases op')
      (simp_all add: is_bytes_def signing_raw_Mint signing_raw_Transfer del: signing_raw.simps)
qed simp

theorem signing_raw_injective_witness:
  "signing_raw (Mint (zero_bytes 32) 1 5) \<noteq> signing_raw (Transfer (zero_bytes 32) (replicate 32 1) 1 5)"
  using signing_raw_injective [of "Mint (zero_bytes 32) 1 5" "Transfer (zero_bytes 32) (replicate 32 1) 1 5"]
  by (simp add: is_bytes_def del: signing_raw.simps)

end
