(* ===== verification/Hashing.thy ===== *)
theory Hashing
  imports Common
begin

text \<open>
  The hash layer of \<open>token-ledger-state-v2\<close> (\<open>src/lib.rs\<close>): hashing of several byte strings, of a
  pair of tree nodes and of a sequence, the tree index of a key, and the hash a value enters
  the tree with. BLAKE2b is the parameter \<open>B\<close>; feeding a hasher piece by piece hashes the
  concatenation.
\<close>

type_synonym hasher = "bytes \<Rightarrow> bytes"
type_synonym tree_index = u16

definition EMPTY_HASH :: hash where
  "EMPTY_HASH = zero_bytes 32"

definition TREE_DEPTH :: nat where
  "TREE_DEPTH = 15"

definition hash_multiple :: "hasher \<Rightarrow> bytes list \<Rightarrow> hash" where
  "hash_multiple B m =
     (if m = [] \<or> list_all (\<lambda>v. v = []) m then EMPTY_HASH
      else take 32 (B (concat m)))"

definition hash_pair :: "hasher \<Rightarrow> hash \<Rightarrow> hash \<Rightarrow> hash" where
  "hash_pair B h1 h2 =
     (if h1 = zero_bytes 32 \<and> h2 = zero_bytes 32 then EMPTY_HASH
      else hash_multiple B [h1, h2])"

text \<open>\<open>[hash[0], hash[1] & (255 << 1)]\<close>, read as a little-endian \<open>u16\<close>.\<close>

definition tree_index_from_key :: "hasher \<Rightarrow> bytes \<Rightarrow> tree_index" where
  "tree_index_from_key B k =
     (let hash = hash_multiple B [k];
          b = [hash ! 0, hash ! 1 AND push_bit 1 255]
      in from_le_bytes b)"

definition hash_sequence :: "hasher \<Rightarrow> ('v \<Rightarrow> hash) \<Rightarrow> 'v list \<Rightarrow> hash" where
  "hash_sequence B merkle_value values = take 32 (B (concat (map merkle_value values)))"

text \<open>The two \<open>MerkleValue\<close> instances on integers: the bytes, zero-padded to 32.\<close>

definition balance_merkle_value :: "u64 \<Rightarrow> hash" where
  "balance_merkle_value b = copy_at 0 (to_le_bytes 8 b) (zero_bytes 32)"

definition token_merkle_value :: "token_id \<Rightarrow> hash" where
  "token_merkle_value t = copy_at 0 (to_le_bytes 4 t) (zero_bytes 32)"

text \<open>No input that is not empty hashes to the hash reserved for an empty node.\<close>

definition blake2b_nonzero :: "hasher \<Rightarrow> bool" where
  "blake2b_nonzero B \<longleftrightarrow> (\<forall>m. m \<noteq> [] \<longrightarrow> take 32 (B m) \<noteq> EMPTY_HASH)"

section \<open>Lemmas\<close>

lemma length_EMPTY_HASH [simp]: "length EMPTY_HASH = 32"
  by (simp add: EMPTY_HASH_def)

lemma EMPTY_HASH_not_Nil [simp]: "EMPTY_HASH \<noteq> []"
  by (simp add: EMPTY_HASH_def zero_bytes_def)

lemma length_hash_multiple [simp]: "blake2b_ok B \<Longrightarrow> length (hash_multiple B m) = 32"
  by (simp add: hash_multiple_def blake2b_ok_def)

lemma length_hash_pair [simp]: "blake2b_ok B \<Longrightarrow> length (hash_pair B h1 h2) = 32"
  by (simp add: hash_pair_def)

lemma hash_pair_empty [simp]: "hash_pair B EMPTY_HASH EMPTY_HASH = EMPTY_HASH"
  by (simp add: hash_pair_def EMPTY_HASH_def)

lemma hash_multiple_nonempty:
  "blake2b_nonzero B \<Longrightarrow> \<not> list_all (\<lambda>v. v = []) m \<Longrightarrow> hash_multiple B m \<noteq> EMPTY_HASH"
proof -
  assume nz: "blake2b_nonzero B" and m: "\<not> list_all (\<lambda>v. v = []) m"
  then have "concat m \<noteq> []" by (auto simp: list_all_iff)
  with nz m show ?thesis by (auto simp: hash_multiple_def blake2b_nonzero_def)
qed

lemma hash_pair_nonempty:
  assumes "blake2b_nonzero B" "h1 \<noteq> EMPTY_HASH \<or> h2 \<noteq> EMPTY_HASH" "h1 \<noteq> [] \<or> h2 \<noteq> []"
  shows "hash_pair B h1 h2 \<noteq> EMPTY_HASH"
  using assms hash_multiple_nonempty [of B "[h1, h2]"]
  by (auto simp: hash_pair_def EMPTY_HASH_def)

lemma length_balance_merkle_value [simp]: "length (balance_merkle_value b) = 32"
  by (simp add: balance_merkle_value_def layout_simps)

lemma balance_merkle_value_not_Nil [simp]: "balance_merkle_value b \<noteq> []"
  by (metis length_balance_merkle_value list.size(3) zero_neq_numeral)

lemma balance_merkle_value_inj: "balance_merkle_value a = balance_merkle_value b \<longleftrightarrow> a = b"
  by (auto simp: balance_merkle_value_def layout_simps)

lemma length_token_merkle_value [simp]: "length (token_merkle_value t) = 32"
  by (simp add: token_merkle_value_def layout_simps)

lemma token_merkle_value_inj: "token_merkle_value a = token_merkle_value b \<longleftrightarrow> a = b"
  by (auto simp: token_merkle_value_def layout_simps)

text \<open>The bits of an index: those of the first two hash bytes, but bit 8 is masked away.\<close>

lemma bit_tree_index:
  "bit (tree_index_from_key B k) i \<longleftrightarrow>
     i < 16 \<and> i \<noteq> 8 \<and> bit (hash_multiple B [k] ! (i div 8)) (i mod 8)"
proof -
  have mask: "bit (push_bit 1 255 :: u8) j \<longleftrightarrow> j \<noteq> 0 \<and> j < 8" for j
  proof -
    have "(push_bit 1 255 :: u8) = NOT (mask 1)" by simp
    then show ?thesis unfolding \<open>push_bit 1 255 = NOT (mask 1)\<close> by (auto simp: bit_not_iff bit_mask_iff)
  qed
  have index: "bit (tree_index_from_key B k) i \<longleftrightarrow> i < 16 \<and> i div 8 < Suc (Suc 0) \<and>
      bit ([hash_multiple B [k] ! 0, hash_multiple B [k] ! 1 AND push_bit 1 255] ! (i div 8)) (i mod 8)"
    unfolding tree_index_from_key_def Let_def bit_from_le_bytes by simp
  consider "i < 8" | j where "i = j + 8" "j < 8" | "16 \<le> i"
    by (metis add.commute le_Suc_ex nat_add_left_cancel_less not_le numeral_Bit0)
  then show ?thesis
  proof cases
    case 1
    then show ?thesis unfolding index by simp
  next
    case (2 j)
    then have d: "i div 8 = 1" "i mod 8 = j" by simp_all
    have second: "[a, b] ! 1 = b" for a b :: u8 by simp
    show ?thesis unfolding index d second bit_and_iff mask using 2 by auto
  next
    case 3
    then show ?thesis unfolding index by simp
  qed
qed

section \<open>A concrete hasher\<close>

text \<open>
  For the concrete inputs of the witnesses: the last two bytes, a one, and a checksum, zero-padded
  to 64 bytes. It meets what the model asks of BLAKE2b.
\<close>

definition demo_hash :: hasher where
  "demo_hash m =
     (case rev m of a # b # _ \<Rightarrow> [a, b] | [a] \<Rightarrow> [a, 0] | [] \<Rightarrow> [0, 0])
     @ [1, foldl (\<lambda>a b. 31 * a + b) 7 m] @ zero_bytes 60"

lemma demo_hash_ok [simp]: "blake2b_ok demo_hash"
  by (auto simp: blake2b_ok_def demo_hash_def split: list.splits)

lemma demo_hash_nonzero [simp]: "blake2b_nonzero demo_hash"
  by (auto simp: blake2b_nonzero_def demo_hash_def EMPTY_HASH_def zero_bytes_def split: list.splits
      dest!: arg_cong [where f = "\<lambda>h. h ! 2"])

lemma demo_tree_index:
  "tree_index_from_key demo_hash (xs @ [b, a]) = ucast a OR push_bit 8 (ucast (b AND 254))"
proof -
  have mask: "(push_bit 1 255 :: u8) = 254" by simp
  show ?thesis
    unfolding tree_index_from_key_def Let_def mask by (simp add: hash_multiple_def demo_hash_def)
qed

end
