(* ===== verification/Btree_Map.thy ===== *)
theory Btree_Map
  imports Prelude
begin

text \<open>
  \<open>alloc::collections::BTreeMap\<close>, which the state, the witness recorder and the netting of
  transfers are built on. A map is its list of entries in key order, which is what iterating
  over it yields; \<open>get\<close> is \<open>map_of\<close>. The laws the clients rely on are the locale
  \<open>ordered_map\<close>, interpreted on the list of entries at the end.
\<close>

type_synonym ('k, 'v) btree_map = "('k \<times> 'v) list"

fun bt_insert :: "'k::linorder \<Rightarrow> 'v \<Rightarrow> ('k, 'v) btree_map \<Rightarrow> ('k, 'v) btree_map" where
  "bt_insert k v [] = [(k, v)]"
| "bt_insert k v ((k', v') # m) =
     (if k < k' then (k, v) # (k', v') # m
      else if k = k' then (k, v) # m
      else (k', v') # bt_insert k v m)"

abbreviation bt_get :: "('k, 'v) btree_map \<Rightarrow> 'k \<Rightarrow> 'v option" where
  "bt_get \<equiv> map_of"

text \<open>Inserting the entries of a list one by one, later ones winning.\<close>

definition bt_extend :: "('k \<times> 'v) list \<Rightarrow> ('k::linorder, 'v) btree_map \<Rightarrow> ('k, 'v) btree_map" where
  "bt_extend kvs m = fold (\<lambda>(k, v). bt_insert k v) kvs m"

text \<open>\<open>m.entry(k).and_modify(f).or_insert(v)\<close>.\<close>

definition bt_upsert ::
    "('v \<Rightarrow> 'v) \<Rightarrow> 'v \<Rightarrow> 'k::linorder \<Rightarrow> ('k, 'v) btree_map \<Rightarrow> ('k, 'v) btree_map" where
  "bt_upsert f v k m = bt_insert k (case bt_get m k of Some e \<Rightarrow> f e | None \<Rightarrow> v) m"

definition bt_ok :: "('k::linorder, 'v) btree_map \<Rightarrow> bool" where
  "bt_ok m \<longleftrightarrow> sorted_wrt (<) (map fst m)"

section \<open>The list of entries\<close>

lemma bt_get_insert [simp]: "bt_get (bt_insert k v m) = (bt_get m)(k \<mapsto> v)"
  by (induction m) (auto simp: fun_upd_def)

lemma fst_set_bt_insert: "fst ` set (bt_insert k v m) = insert k (fst ` set m)"
  by (simp flip: dom_map_of_conv_image_fst)

lemma bt_ok_empty [simp, intro]: "bt_ok []"
  by (simp add: bt_ok_def)

lemma bt_ok_insert [simp, intro]: "bt_ok m \<Longrightarrow> bt_ok (bt_insert k v m)"
proof (induction m)
  case (Cons e m)
  have "fst ` set (bt_insert k v m) = insert k (fst ` set m)" by (rule fst_set_bt_insert)
  then show ?case using Cons by (cases e) (auto simp: bt_ok_def)
qed (simp add: bt_ok_def)

lemma bt_ok_distinct: "bt_ok m \<Longrightarrow> distinct (map fst m)"
  by (auto simp: bt_ok_def strict_sorted_iff)

lemma bt_ok_tl: "bt_ok (e # m) \<Longrightarrow> bt_ok m"
  by (simp add: bt_ok_def)

lemma bt_mem_iff: "bt_ok m \<Longrightarrow> (k, v) \<in> set m \<longleftrightarrow> bt_get m k = Some v"
  by (simp add: bt_ok_distinct)

text \<open>Two maps in key order with the same entries are the same list.\<close>

lemma entries_from_keys:
  "distinct (map fst m) \<Longrightarrow> map (\<lambda>k. (k, the (map_of m k))) (map fst m) = m"
  by (auto intro!: map_idI)

lemma bt_ext:
  assumes "bt_ok m" "bt_ok m'" and eq: "bt_get m = bt_get m'"
  shows "m = m'"
proof -
  have "set (map fst m) = set (map fst m')"
    using eq by (metis dom_map_of_conv_image_fst list.set_map)
  then have "map fst m = map fst m'"
    using assms(1,2) unfolding bt_ok_def by (metis strict_sorted_equal)
  then show ?thesis
    using assms by (metis bt_ok_distinct entries_from_keys)
qed

lemma bt_get_upsert:
  "bt_get (bt_upsert f v k m) = (bt_get m)(k \<mapsto> (case bt_get m k of Some e \<Rightarrow> f e | None \<Rightarrow> v))"
  by (simp add: bt_upsert_def)

lemma bt_ok_upsert [simp, intro]: "bt_ok m \<Longrightarrow> bt_ok (bt_upsert f v k m)"
  by (simp add: bt_upsert_def)

section \<open>The interface\<close>

locale ordered_map =
  fixes emp :: "'m"
    and get :: "'m \<Rightarrow> 'k::linorder \<Rightarrow> 'v option"
    and ins :: "'k \<Rightarrow> 'v \<Rightarrow> 'm \<Rightarrow> 'm"
    and entries :: "'m \<Rightarrow> ('k \<times> 'v) list"
    and ok :: "'m \<Rightarrow> bool"
  assumes get_emp: "get emp k = None"
    and get_ins: "ok m \<Longrightarrow> get (ins k v m) k' = (if k' = k then Some v else get m k')"
    and ok_emp: "ok emp"
    and ok_ins: "ok m \<Longrightarrow> ok (ins k v m)"
    and mem_entries: "ok m \<Longrightarrow> (k, v) \<in> set (entries m) \<longleftrightarrow> get m k = Some v"
    and sorted_entries: "ok m \<Longrightarrow> sorted_wrt (<) (map fst (entries m))"
begin

lemma distinct_entries: "ok m \<Longrightarrow> distinct (map fst (entries m))"
  using sorted_entries by (simp add: strict_sorted_iff)

lemma map_of_entries: "ok m \<Longrightarrow> map_of (entries m) k = get m k"
proof (cases "get m k")
  case None
  assume "ok m"
  then have "k \<notin> fst ` set (entries m)" using None mem_entries by fastforce
  then show ?thesis using None by (simp add: map_of_eq_None_iff)
next
  case (Some v)
  assume "ok m"
  then show ?thesis using Some mem_entries distinct_entries by (metis map_of_is_SomeI)
qed

lemma ok_extend: "ok m \<Longrightarrow> ok (fold (\<lambda>(k, v). ins k v) kvs m)"
  by (induction kvs arbitrary: m) (auto simp: ok_ins)

lemma get_extend:
  "ok m \<Longrightarrow> distinct (map fst kvs) \<Longrightarrow>
     get (fold (\<lambda>(k, v). ins k v) kvs m) k
       = (case map_of kvs k of Some v \<Rightarrow> Some v | None \<Rightarrow> get m k)"
proof (induction kvs arbitrary: m)
  case (Cons e kvs)
  obtain k' v' where e: "e = (k', v')" by (cases e)
  have "map_of kvs k' = None" using Cons.prems(2) by (simp add: e map_of_eq_None_iff)
  then show ?case using Cons by (auto simp: e ok_ins get_ins split: option.split)
qed simp

text \<open>Collecting the entries and inserting them into an empty map gives the map back.\<close>

lemma rebuild:
  "ok m \<Longrightarrow> get (fold (\<lambda>(k, v). ins k v) (entries m) emp) k = get m k"
  by (simp add: get_extend ok_emp distinct_entries map_of_entries get_emp split: option.split)

end

interpretation btm: ordered_map "[]" bt_get bt_insert "\<lambda>m. m" bt_ok
  by unfold_locales (auto simp: bt_mem_iff, simp add: bt_ok_def)

lemma bt_ok_extend [simp, intro]: "bt_ok m \<Longrightarrow> bt_ok (bt_extend kvs m)"
  unfolding bt_extend_def by (rule btm.ok_extend)

lemma bt_get_extend:
  "bt_ok m \<Longrightarrow> distinct (map fst kvs) \<Longrightarrow>
     bt_get (bt_extend kvs m) k = (case map_of kvs k of Some v \<Rightarrow> Some v | None \<Rightarrow> bt_get m k)"
  unfolding bt_extend_def by (rule btm.get_extend)

lemma bt_rebuild: "bt_ok m \<Longrightarrow> bt_extend m [] = m"
  by (rule bt_ext) (auto simp: bt_extend_def btm.rebuild fun_eq_iff intro: btm.ok_extend)

end
