(* ===== verification/Transition.thy ===== *)
theory Transition
  imports Hashing Btree_Map
begin

text \<open>
  The transition logic of \<open>token-ledger-state-v2\<close> (\<open>src/transition.rs\<close>): the modes of a payload,
  the checks on a batch of signed operations, and the execution of a batch: mints at once,
  transfers netted per token and pair of accounts and settled in key order. The trait
  \<open>StateOps\<close> is the record \<open>state_ops\<close> of its methods; a read passes the state on, because the
  client's implementation records reads. The locale \<open>state_ops_laws\<close> states what the methods
  promise; the lemmas of its context hold for every implementation.
\<close>

section \<open>Modes and the StateOps trait\<close>

datatype delivery_mode = Direct | Extrinsic

datatype execution_mode = Immediate | Deferring | Deferred

record 's state_ops =
  so_known_tokens_contains :: "token_id \<Rightarrow> 's \<Rightarrow> bool"
  so_known_tokens_push :: "token_id \<Rightarrow> 's \<Rightarrow> 's"
  so_get_balance :: "account_id \<Rightarrow> token_id \<Rightarrow> 's \<Rightarrow> u64 option \<times> 's"
  so_set_balance :: "account_id \<Rightarrow> token_id \<Rightarrow> u64 \<Rightarrow> 's \<Rightarrow> panic + 's"
  so_root :: "'s \<Rightarrow> hash \<times> 's"

section \<open>Verification of a batch\<close>

fun verify_operations :: "crypto \<Rightarrow> signed_operation list \<Rightarrow> panic + bool" where
  "verify_operations C [] = Inr True"
| "verify_operations C (op # ops) =
     (case operation op of
        Mint to token_id amount \<Rightarrow>
          (case vk_try_from C (admin C) of
             None \<Rightarrow> Inl AdminKey
           | Some admin_key \<Rightarrow>
               if isl (verify_signature C (operation op) (signature op) admin_key) then Inr False
               else if amount = 0 then Inr False
               else verify_operations C ops)
      | Transfer from to token_id amount \<Rightarrow>
          (case vk_try_from C from of
             None \<Rightarrow> Inr False
           | Some signer_key \<Rightarrow>
               if isl (verify_signature C (operation op) (signature op) signer_key) then Inr False
               else if amount = 0 then Inr False
               else if from = to then Inr False
               else verify_operations C ops))"

section \<open>Execution of a batch\<close>

definition process_mint ::
    "'s state_ops \<Rightarrow> account_id \<Rightarrow> token_id \<Rightarrow> u64 \<Rightarrow> 's \<Rightarrow> panic + 's" where
  "process_mint M to token_id amount s =
     (if so_known_tokens_contains M token_id s then Inr s
      else
        let s = so_known_tokens_push M token_id s;
            (b, s) = so_get_balance M to token_id s;
            current_bal = (case b of Some b \<Rightarrow> b | None \<Rightarrow> 0);
            new_bal = saturating_add current_bal amount
        in so_set_balance M to token_id new_bal s)"

definition process_transfer ::
    "'s state_ops \<Rightarrow> account_id \<Rightarrow> account_id \<Rightarrow> token_id \<Rightarrow> u64 \<Rightarrow> 's \<Rightarrow> panic + 's" where
  "process_transfer M from to token_id amount s =
     (if \<not> so_known_tokens_contains M token_id s then Inr s
      else
        let (b, s) = so_get_balance M from token_id s;
            from_bal = (case b of Some b \<Rightarrow> b | None \<Rightarrow> 0)
        in if from_bal < amount then Inr s
           else
             let (b, s) = so_get_balance M to token_id s;
                 to_bal = (case b of Some b \<Rightarrow> b | None \<Rightarrow> 0)
             in bind_res (so_set_balance M from token_id (from_bal - amount) s)
                  (so_set_balance M to token_id (saturating_add to_bal amount)))"

type_synonym staged_transfers = "(token_id \<times> counterparts, i64) btree_map"

definition stage_transfer ::
    "account_id \<Rightarrow> account_id \<Rightarrow> token_id \<Rightarrow> u64 \<Rightarrow> staged_transfers \<Rightarrow> staged_transfers" where
  "stage_transfer from to token_id amount staged =
     (let transfer = canonical_transfer from to token_id amount
      in bt_upsert (\<lambda>e. e + snd transfer) (snd transfer) (fst transfer) staged)"

text \<open>The body of the first loop, on the state and the staged transfers.\<close>

definition transition_step ::
    "'s state_ops \<Rightarrow> signed_operation \<Rightarrow> 's \<times> staged_transfers \<Rightarrow> panic + ('s \<times> staged_transfers)" where
  "transition_step M op = (\<lambda>(s, staged).
     (case operation op of
        Mint to token_id amount \<Rightarrow>
          bind_res (process_mint M to token_id amount s) (\<lambda>s. Inr (s, staged))
      | Transfer from to token_id amount \<Rightarrow>
          Inr (s, stage_transfer from to token_id amount staged)))"

text \<open>The body of the second loop: a net amount of zero is skipped.\<close>

definition settle_transfer ::
    "'s state_ops \<Rightarrow> (token_id \<times> counterparts) \<times> i64 \<Rightarrow> 's \<Rightarrow> panic + 's" where
  "settle_transfer M entry s =
     (let ((token_id, (from, to)), net_amount) = entry
      in if sint net_amount > 0 then process_transfer M from to token_id net_amount s
         else if sint net_amount < 0 then process_transfer M to from token_id (- net_amount) s
         else Inr s)"

definition state_transition :: "'s state_ops \<Rightarrow> signed_operation list \<Rightarrow> 's \<Rightarrow> panic + 's" where
  "state_transition M operations s =
     bind_res (fold_res (transition_step M) operations (s, []))
       (\<lambda>(s, staged_transfers). fold_res (settle_transfer M) staged_transfers s)"

section \<open>The contract of StateOps\<close>

text \<open>
  \<open>inv\<close> is the implementation's invariant, \<open>slot\<close> the account-token pairs it can hold, \<open>toks\<close> and \<open>bal\<close>
  the abstract content: the known tokens and the balance of an account in a token.
\<close>

locale state_ops_laws =
  fixes M :: "'s state_ops"
    and inv :: "'s \<Rightarrow> bool"
    and slot :: "account_id \<Rightarrow> token_id \<Rightarrow> bool"
    and toks :: "'s \<Rightarrow> token_id set"
    and bal :: "'s \<Rightarrow> account_id \<Rightarrow> token_id \<Rightarrow> u64 option"
  assumes slot_bytes: "slot a t \<Longrightarrow> is_bytes 32 a"
    and contains: "inv s \<Longrightarrow> so_known_tokens_contains M t s \<longleftrightarrow> t \<in> toks s"
    and push_inv: "inv s \<Longrightarrow> inv (so_known_tokens_push M t s)"
    and push_toks: "inv s \<Longrightarrow> toks (so_known_tokens_push M t s) = insert t (toks s)"
    and push_bal: "inv s \<Longrightarrow> bal (so_known_tokens_push M t s) = bal s"
    and get_bal: "inv s \<Longrightarrow> slot a t \<Longrightarrow> fst (so_get_balance M a t s) = bal s a t"
    and get_inv: "inv s \<Longrightarrow> slot a t \<Longrightarrow> inv (snd (so_get_balance M a t s))"
    and get_toks: "inv s \<Longrightarrow> slot a t \<Longrightarrow> toks (snd (so_get_balance M a t s)) = toks s"
    and get_frame: "inv s \<Longrightarrow> slot a t \<Longrightarrow> bal (snd (so_get_balance M a t s)) = bal s"
    and set_inv: "inv s \<Longrightarrow> slot a t \<Longrightarrow> so_set_balance M a t v s = Inr s' \<Longrightarrow> inv s'"
    and set_toks: "inv s \<Longrightarrow> slot a t \<Longrightarrow> so_set_balance M a t v s = Inr s' \<Longrightarrow> toks s' = toks s"
    and set_bal: "inv s \<Longrightarrow> slot a t \<Longrightarrow> so_set_balance M a t v s = Inr s' \<Longrightarrow> slot b u \<Longrightarrow>
                    bal s' b u = (if b = a \<and> u = t then Some v else bal s b u)"
begin

lemmas get_laws = get_bal get_inv get_toks get_frame

lemmas push_laws = push_inv push_toks push_bal

end

text \<open>The contract of an implementation whose writes cannot panic.\<close>

locale state_ops_total = state_ops_laws +
  assumes set_total: "inv s \<Longrightarrow> slot a t \<Longrightarrow> \<exists>s'. so_set_balance M a t v s = Inr s'"

text \<open>The balance an absent entry stands for.\<close>

definition amount_of :: "u64 option \<Rightarrow> u64" where
  "amount_of b = (case b of Some b \<Rightarrow> b | None \<Rightarrow> 0)"

lemma amount_of_simps [simp]: "amount_of None = 0" "amount_of (Some b) = b"
  by (simp_all add: amount_of_def)

section \<open>Mints and transfers as updates of the balances\<close>

context state_ops_laws begin

lemma mint_known: "inv s \<Longrightarrow> t \<in> toks s \<Longrightarrow> process_mint M to t a s = Inr s"
  by (simp add: process_mint_def contains)

lemma mint_new:
  assumes "inv s" "slot to t" "t \<notin> toks s" "process_mint M to t a s = Inr s'"
  shows "inv s'" "toks s' = insert t (toks s)"
    "slot b u \<Longrightarrow> bal s' b u =
       (if b = to \<and> u = t then Some (saturating_add (amount_of (bal s to t)) a) else bal s b u)"
proof -
  let ?s1 = "so_known_tokens_push M t s"
  let ?s2 = "snd (so_get_balance M to t ?s1)"
  have s1: "inv ?s1" "toks ?s1 = insert t (toks s)" "bal ?s1 = bal s"
    using assms(1) by (simp_all add: push_laws)
  have s2: "inv ?s2" "toks ?s2 = insert t (toks s)" "bal ?s2 = bal s"
    using s1 assms(2) by (simp_all add: get_laws)
  have set: "so_set_balance M to t (saturating_add (amount_of (bal s to t)) a) ?s2 = Inr s'"
    using assms s1 by (simp add: process_mint_def contains Let_def case_prod_unfold get_bal amount_of_def)
  show "inv s'" using set_inv [OF s2(1) assms(2) set] .
  show "toks s' = insert t (toks s)" using set_toks [OF s2(1) assms(2) set] s2(2) by simp
  show "slot b u \<Longrightarrow> bal s' b u =
      (if b = to \<and> u = t then Some (saturating_add (amount_of (bal s to t)) a) else bal s b u)"
    using set_bal [OF s2(1) assms(2) set] s2(3) by simp
qed

lemma transfer_unknown: "inv s \<Longrightarrow> t \<notin> toks s \<Longrightarrow> process_transfer M from to t a s = Inr s"
  by (simp add: process_transfer_def contains)

lemma transfer_insufficient:
  assumes "inv s" "slot from t" "t \<in> toks s" "amount_of (bal s from t) < a"
  shows "\<exists>s'. process_transfer M from to t a s = Inr s' \<and> inv s' \<and> toks s' = toks s \<and> bal s' = bal s"
  using assms by (simp add: process_transfer_def contains Let_def case_prod_unfold get_laws flip: amount_of_def)

text \<open>A transfer that the sender can pay: the sender's entry is written first, then the receiver's.\<close>

lemma transfer_paid:
  assumes "inv s" "slot from t" "slot to t" "t \<in> toks s" "\<not> amount_of (bal s from t) < a"
    "process_transfer M from to t a s = Inr s'"
  shows "inv s'" "toks s' = toks s"
    "slot b u \<Longrightarrow> bal s' b u =
       (if b = to \<and> u = t then Some (saturating_add (amount_of (bal s to t)) a)
        else if b = from \<and> u = t then Some (amount_of (bal s from t) - a)
        else bal s b u)"
proof -
  let ?s1 = "snd (so_get_balance M from t s)"
  let ?s2 = "snd (so_get_balance M to t ?s1)"
  have s1: "inv ?s1" "toks ?s1 = toks s" "bal ?s1 = bal s" using assms by (simp_all add: get_laws)
  have s2: "inv ?s2" "toks ?s2 = toks s" "bal ?s2 = bal s" using s1 assms by (simp_all add: get_laws)
  obtain s3 where s3: "so_set_balance M from t (amount_of (bal s from t) - a) ?s2 = Inr s3"
    and set: "so_set_balance M to t (saturating_add (amount_of (bal s to t)) a) s3 = Inr s'"
    using assms s1
    by (auto simp: process_transfer_def contains Let_def case_prod_unfold get_bal bind_res_Inr_iff
        simp flip: amount_of_def)
  have i3: "inv s3" using set_inv [OF s2(1) assms(2) s3] .
  show "inv s'" using set_inv [OF i3 assms(3) set] .
  show "toks s' = toks s" using set_toks [OF i3 assms(3) set] set_toks [OF s2(1) assms(2) s3] s2 by simp
  show "slot b u \<Longrightarrow> bal s' b u =
       (if b = to \<and> u = t then Some (saturating_add (amount_of (bal s to t)) a)
        else if b = from \<and> u = t then Some (amount_of (bal s from t) - a)
        else bal s b u)"
    using set_bal [OF i3 assms(3) set, of b u] set_bal [OF s2(1) assms(2) s3, of b u] s2(3) by auto
qed

end

end
