(* ===== verification/Ledger.thy ===== *)
theory Ledger
  imports Transition
begin

text \<open>
  What a batch does to the ledger. \<open>token_supply\<close> is the sum of all balances of a token; a mint of a new
  token creates its amount, a settled transfer moves an amount and creates nothing. The staged
  net of a pair of accounts is the exact sum of its signed amounts while that sum fits an
  \<open>i64\<close>; beyond, it wraps. The lemmas are proved against the contract \<open>state_ops_laws\<close>.
\<close>

section \<open>Supply\<close>

definition token_supply ::
    "(account_id \<Rightarrow> token_id \<Rightarrow> bool) \<Rightarrow> (account_id \<Rightarrow> token_id \<Rightarrow> u64 option) \<Rightarrow> token_id \<Rightarrow> nat" where
  "token_supply slot bal t = (\<Sum>a | slot a t. unat (amount_of (bal a t)))"

text \<open>The amount a batch creates of a token that is not known: that of its first mint.\<close>

fun minted :: "token_id \<Rightarrow> signed_operation list \<Rightarrow> nat" where
  "minted t [] = 0"
| "minted t (op # ops) =
     (case operation op of
        Mint to t' a \<Rightarrow> if t' = t then unat a else minted t ops
      | Transfer _ _ _ _ \<Rightarrow> minted t ops)"

fun mint_tokens :: "signed_operation list \<Rightarrow> token_id set" where
  "mint_tokens [] = {}"
| "mint_tokens (op # ops) =
     (case operation op of Mint _ t _ \<Rightarrow> insert t (mint_tokens ops) | Transfer _ _ _ _ \<Rightarrow> mint_tokens ops)"

text \<open>Every account a batch names has a slot, and no transfer is to the sender.\<close>

fun op_slots :: "(account_id \<Rightarrow> token_id \<Rightarrow> bool) \<Rightarrow> signed_operation \<Rightarrow> bool" where
  "op_slots slot op =
     (case operation op of
        Mint to t _ \<Rightarrow> slot to t
      | Transfer from to t _ \<Rightarrow> slot from t \<and> slot to t \<and> from \<noteq> to)"

fun entry_slots :: "(account_id \<Rightarrow> token_id \<Rightarrow> bool) \<Rightarrow> (token_id \<times> counterparts) \<times> i64 \<Rightarrow> bool" where
  "entry_slots slot ((t, (a, b)), n) \<longleftrightarrow> slot a t \<and> slot b t \<and> a \<noteq> b"

text \<open>Before a batch: unknown tokens have no balances, and a token's balances sum to a \<open>u64\<close>.\<close>

definition solvent ::
    "(account_id \<Rightarrow> token_id \<Rightarrow> bool) \<Rightarrow> token_id set \<Rightarrow> (account_id \<Rightarrow> token_id \<Rightarrow> u64 option) \<Rightarrow> bool" where
  "solvent slot toks bal \<longleftrightarrow>
     (\<forall>t. token_supply slot bal t < 2 ^ 64) \<and> (\<forall>t. t \<notin> toks \<longrightarrow> token_supply slot bal t = 0)"

lemma set_bt_insert_subset: "e \<in> set (bt_insert k v m) \<Longrightarrow> e = (k, v) \<or> e \<in> set m"
  by (induction m) (auto split: if_splits)

lemma stage_transfer_slots:
  assumes "\<forall>e \<in> set staged. entry_slots slot e" "slot from t" "slot to t" "from \<noteq> to"
  shows "\<forall>e \<in> set (stage_transfer from to t a staged). entry_slots slot e"
  using assms
  by (auto simp: stage_transfer_def bt_upsert_def canonical_transfer_def Let_def
      dest!: set_bt_insert_subset split: if_splits)

context state_ops_laws begin

lemma finite_slots: "finite {a. slot a t}"
  by (rule finite_subset [OF _ finite_is_bytes [of 32]]) (auto intro: slot_bytes)

lemma supply_zero_iff: "token_supply slot b t = 0 \<longleftrightarrow> (\<forall>a. slot a t \<longrightarrow> amount_of (b a t) = 0)"
  using finite_slots [of t] by (auto simp: token_supply_def unat_eq_zero)

lemma supply_cong:
  "(\<And>a. slot a t \<Longrightarrow> b a t = b' a t) \<Longrightarrow> token_supply slot b t = token_supply slot b' t"
  unfolding token_supply_def by (rule sum.cong) auto

lemma mint_supply:
  assumes "inv s" "slot to t" "t \<notin> toks s" "token_supply slot (bal s) t = 0"
    "process_mint M to t a s = Inr s'"
  shows "token_supply slot (bal s') u = (if u = t then unat a else token_supply slot (bal s) u)"
proof -
  note new = mint_new [OF assms(1-3,5)]
  have zero: "amount_of (bal s b t) = 0" if "slot b t" for b
    using assms(4) that by (simp add: supply_zero_iff)
  show ?thesis
  proof (cases "u = t")
    case True
    have "token_supply slot (bal s') t + unat (amount_of (bal s to t)) = token_supply slot (bal s) t + unat (amount_of (bal s' to t))"
      unfolding token_supply_def using assms(2) new(3)
      by (intro sum_change_one) (auto simp: finite_slots)
    then show ?thesis
      using True assms(2,4) new(3) [OF assms(2)] zero [OF assms(2)] by simp
  next
    case False
    then show ?thesis using new(3) by (auto intro!: supply_cong)
  qed
qed

lemma transfer_supply:
  assumes "inv s" "slot from t" "slot to t" "from \<noteq> to" "token_supply slot (bal s) t < 2 ^ 64"
    "process_transfer M from to t a s = Inr s'"
  shows "inv s' \<and> toks s' = toks s \<and> (\<forall>u. token_supply slot (bal s') u = token_supply slot (bal s) u)"
proof -
  consider "t \<notin> toks s" | "t \<in> toks s" "amount_of (bal s from t) < a"
    | "t \<in> toks s" "\<not> amount_of (bal s from t) < a" by blast
  then show ?thesis
  proof cases
    case 1
    then show ?thesis using assms by (simp add: transfer_unknown)
  next
    case 2
    then show ?thesis
      using transfer_insufficient [OF assms(1,2) 2, of to] assms by auto
  next
    case 3
    note paid = transfer_paid [OF assms(1-3) 3 assms(6)]
    let ?f = "amount_of (bal s from t)" and ?g = "amount_of (bal s to t)"
    have fin: "finite {a. slot a t}" by (rule finite_slots)
    have "unat ?f + unat ?g \<le> token_supply slot (bal s) t"
      unfolding token_supply_def using assms(2-4) sum_two_le [OF fin, of "from" to] by simp
    moreover have "unat a \<le> unat ?f" using 3(2) by (simp add: not_less word_le_nat_alt)
    ultimately have "unat (saturating_add ?g a) = unat ?g + unat a" "unat (?f - a) = unat ?f - unat a"
      using assms(5) 3 by (simp_all add: unat_sub word_le_nat_alt)
    then have "token_supply slot (bal s') t = token_supply slot (bal s) t"
      unfolding token_supply_def using assms(2-4) paid(3) \<open>unat a \<le> unat ?f\<close>
      by (intro sum_change_two [of _ "from" to]) (auto simp: finite_slots)
    moreover have "token_supply slot (bal s') u = token_supply slot (bal s) u" if "u \<noteq> t" for u
      using paid(3) that by (auto intro!: supply_cong)
    ultimately show ?thesis using paid(1,2) by metis
  qed
qed

text \<open>The second loop creates and destroys nothing.\<close>

lemma settle_supply:
  assumes "fold_res (settle_transfer M) staged s = Inr s'" "inv s"
    "\<forall>e \<in> set staged. entry_slots slot e" "\<forall>t. token_supply slot (bal s) t < 2 ^ 64"
  shows "inv s' \<and> toks s' = toks s \<and> (\<forall>u. token_supply slot (bal s') u = token_supply slot (bal s) u)"
proof (rule fold_res_invariant [OF assms(1), where
      I = "\<lambda>x. inv x \<and> toks x = toks s \<and> (\<forall>u. token_supply slot (bal x) u = token_supply slot (bal s) u)"])
  fix e x x'
  assume e: "e \<in> set staged" and step: "settle_transfer M e x = Inr x'"
    and x: "inv x \<and> toks x = toks s \<and> (\<forall>u. token_supply slot (bal x) u = token_supply slot (bal s) u)"
  obtain t a b n where e': "e = ((t, (a, b)), n)" by (metis surj_pair)
  have ab: "slot a t" "slot b t" "a \<noteq> b" using e assms(3) by (auto simp: e')
  have bound: "token_supply slot (bal x) t < 2 ^ 64" using x assms(4) by simp
  show "inv x' \<and> toks x' = toks s \<and> (\<forall>u. token_supply slot (bal x') u = token_supply slot (bal s) u)"
  proof (cases "sint n > 0")
    case True
    then show ?thesis
      using transfer_supply [OF _ ab bound] step x by (auto simp: settle_transfer_def e')
  next
    case False
    then show ?thesis
      using transfer_supply [OF _ ab(2,1) ab(3) [symmetric] bound] step x
      by (auto simp: settle_transfer_def e' split: if_splits)
  qed
qed (use assms(2) in auto)

text \<open>A new token is minted once, and then its supply is the amount minted.\<close>

lemma mint_new_supply:
  assumes "inv s" "solvent slot (toks s) (bal s)" "slot to t" "t \<notin> toks s" "process_mint M to t a s = Inr s1"
  shows "inv s1 \<and> toks s1 = insert t (toks s) \<and> solvent slot (toks s1) (bal s1) \<and>
    (\<forall>u. token_supply slot (bal s1) u = (if u = t then unat a else token_supply slot (bal s) u))"
proof -
  have zero: "token_supply slot (bal s) t = 0" using assms(2,4) by (simp add: solvent_def)
  note new = mint_new [OF assms(1,3,4,5)] mint_supply [OF assms(1,3,4) zero assms(5)]
  have "unat a < 2 ^ 64" using unsigned_less [of a, where 'a = nat] by simp
  then show ?thesis using assms(2) new by (auto simp: solvent_def)
qed

text \<open>The first loop mints each new token once.\<close>

lemma mint_loop_supply:
  assumes "fold_res (transition_step M) ops (s, staged) = Inr (s', staged')" "inv s"
    "solvent slot (toks s) (bal s)" "\<forall>op \<in> set ops. op_slots slot op"
    "\<forall>e \<in> set staged. entry_slots slot e"
  shows "inv s' \<and> toks s' = toks s \<union> mint_tokens ops \<and> solvent slot (toks s') (bal s') \<and>
    (\<forall>e \<in> set staged'. entry_slots slot e) \<and>
    (\<forall>u. token_supply slot (bal s') u = (if u \<in> toks s then token_supply slot (bal s) u else minted u ops))"
  using assms
proof (induction ops arbitrary: s staged)
  case Nil
  then show ?case by (auto simp: solvent_def)
next
  case (Cons op ops)
  from Cons.prems(1) obtain s1 staged1 where
    step: "transition_step M op (s, staged) = Inr (s1, staged1)" and
    rest: "fold_res (transition_step M) ops (s1, staged1) = Inr (s', staged')"
    by (auto simp: bind_res_Inr_iff)
  have slots: "\<forall>op \<in> set ops. op_slots slot op" "op_slots slot op" using Cons.prems(4) by auto
  show ?case
  proof (cases "operation op")
    case (Transfer "from" to t a)
    then have s1: "s1 = s" and st: "staged1 = stage_transfer from to t a staged"
      using step by (auto simp: transition_step_def)
    have "\<forall>e \<in> set staged1. entry_slots slot e"
      unfolding st using Cons.prems(5) slots(2) Transfer by (intro stage_transfer_slots) auto
    then show ?thesis
      using Cons.IH [OF rest _ _ slots(1)] Cons.prems(2,3) Transfer unfolding s1 by auto
  next
    case (Mint to t a)
    then have mint: "process_mint M to t a s = Inr s1" and st: "staged1 = staged"
      using step by (auto simp: transition_step_def bind_res_Inr_iff)
    have slot: "slot to t" using slots(2) Mint by simp
    show ?thesis
    proof (cases "t \<in> toks s")
      case True
      then have "s1 = s" using mint Cons.prems(2) by (simp add: mint_known)
      then show ?thesis
        using Cons.IH [OF rest _ _ slots(1)] Cons.prems(2,3,5) st Mint True by auto
    next
      case False
      note new = mint_new_supply [OF Cons.prems(2,3) slot False mint]
      have "inv s' \<and> toks s' = toks s1 \<union> mint_tokens ops \<and> solvent slot (toks s') (bal s') \<and>
          (\<forall>e \<in> set staged'. entry_slots slot e) \<and>
          (\<forall>u. token_supply slot (bal s') u = (if u \<in> toks s1 then token_supply slot (bal s1) u else minted u ops))"
        using Cons.IH [OF rest _ _ slots(1)] new Cons.prems(5) st by blast
      then show ?thesis using new Mint False by auto
    qed
  qed
qed

theorem transition_supply:
  assumes "state_transition M ops s = Inr s'" "inv s" "solvent slot (toks s) (bal s)"
    "\<forall>op \<in> set ops. op_slots slot op"
  shows "inv s' \<and> toks s' = toks s \<union> mint_tokens ops \<and> solvent slot (toks s') (bal s') \<and>
    (\<forall>u. token_supply slot (bal s') u = (if u \<in> toks s then token_supply slot (bal s) u else minted u ops))"
proof -
  obtain s1 staged where first: "fold_res (transition_step M) ops (s, []) = Inr (s1, staged)"
    and second: "fold_res (settle_transfer M) staged s1 = Inr s'"
    using assms(1) by (auto simp: state_transition_def bind_res_Inr_iff)
  have s1: "inv s1 \<and> toks s1 = toks s \<union> mint_tokens ops \<and> solvent slot (toks s1) (bal s1) \<and>
      (\<forall>e \<in> set staged. entry_slots slot e) \<and>
      (\<forall>u. token_supply slot (bal s1) u = (if u \<in> toks s then token_supply slot (bal s) u else minted u ops))"
    using mint_loop_supply [OF first assms(2-4)] by auto
  then have "\<forall>t. token_supply slot (bal s1) t < 2 ^ 64" unfolding solvent_def by blast
  with s1 have "inv s' \<and> toks s' = toks s1 \<and>
      (\<forall>u. token_supply slot (bal s') u = token_supply slot (bal s1) u)"
    by (intro settle_supply [OF second]) auto
  then show ?thesis using s1 unfolding solvent_def by metis
qed

end

section \<open>A batch does not panic\<close>

context state_ops_total begin

lemma mint_total:
  assumes "inv s" "slot to t"
  shows "\<exists>s'. process_mint M to t a s = Inr s' \<and> inv s'"
proof (cases "t \<in> toks s")
  case False
  let ?s = "snd (so_get_balance M to t (so_known_tokens_push M t s))"
  have "inv ?s" using assms by (simp add: push_inv get_inv)
  then obtain s' where "process_mint M to t a s = Inr s'"
    using set_total [OF _ assms(2), of ?s] False assms(1)
    by (auto simp: process_mint_def contains Let_def case_prod_unfold)
  then show ?thesis using mint_new(1) [OF assms False] by blast
qed (use assms in \<open>simp add: mint_known\<close>)

lemma transfer_total:
  assumes "inv s" "slot from t" "slot to t"
  shows "\<exists>s'. process_transfer M from to t a s = Inr s' \<and> inv s'"
proof -
  consider "t \<notin> toks s" | "t \<in> toks s" "amount_of (bal s from t) < a"
    | "t \<in> toks s" "\<not> amount_of (bal s from t) < a" by blast
  then show ?thesis
  proof cases
    case 1
    then show ?thesis using assms by (simp add: transfer_unknown)
  next
    case 2
    then show ?thesis using transfer_insufficient [OF assms(1,2) 2] by blast
  next
    case 3
    let ?s = "snd (so_get_balance M to t (snd (so_get_balance M from t s)))"
    have s: "inv ?s" using assms by (simp add: get_inv)
    then obtain s1 where s1: "so_set_balance M from t (amount_of (bal s from t) - a) ?s = Inr s1"
      using set_total assms(2) by blast
    then have "inv s1" using s set_inv assms(2) by blast
    then obtain s' where "process_transfer M from to t a s = Inr s'"
      using set_total [OF \<open>inv s1\<close> assms(3)] s1 3 assms
      by (auto simp: process_transfer_def contains Let_def case_prod_unfold get_laws
          simp flip: amount_of_def)
    then show ?thesis using transfer_paid(1) [OF assms 3] by blast
  qed
qed

lemma transition_total:
  assumes "inv s" "\<forall>op \<in> set ops. op_slots slot op"
  shows "\<exists>s'. state_transition M ops s = Inr s' \<and> inv s'"
proof -
  have "\<exists>r. fold_res (transition_step M) ops (s, []) = Inr r \<and>
      (inv (fst r) \<and> (\<forall>e \<in> set (snd r). entry_slots slot e))"
  proof (rule fold_res_total [where I = "\<lambda>r. inv (fst r) \<and> (\<forall>e \<in> set (snd r). entry_slots slot e)"])
    fix op r assume op: "op \<in> set ops" and r: "inv (fst r) \<and> (\<forall>e \<in> set (snd r). entry_slots slot e)"
    obtain s1 staged where [simp]: "r = (s1, staged)" by (cases r)
    have slots: "op_slots slot op" using op assms(2) by simp
    show "\<exists>r'. transition_step M op r = Inr r' \<and> inv (fst r') \<and> (\<forall>e \<in> set (snd r'). entry_slots slot e)"
    proof (cases "operation op")
      case (Mint to t a)
      then obtain s2 where "process_mint M to t a s1 = Inr s2" "inv s2"
        using mint_total [of s1 to t a] r slots by auto
      then show ?thesis using r Mint by (simp add: transition_step_def)
    next
      case (Transfer "from" to t a)
      then have "\<forall>e \<in> set (stage_transfer from to t a staged). entry_slots slot e"
        using r slots by (intro stage_transfer_slots) auto
      then show ?thesis using r Transfer by (simp add: transition_step_def)
    qed
  qed (use assms in auto)
  then obtain s1 staged where loop: "fold_res (transition_step M) ops (s, []) = Inr (s1, staged)"
    and s1: "inv s1" "\<forall>e \<in> set staged. entry_slots slot e" by auto
  have "\<exists>s'. fold_res (settle_transfer M) staged s1 = Inr s' \<and> inv s'"
  proof (rule fold_res_total)
    fix e x assume e: "e \<in> set staged" and x: "inv x"
    obtain t a b n where e': "e = ((t, (a, b)), n)" by (metis surj_pair)
    have "slot a t" "slot b t" using e s1(2) by (auto simp: e')
    then show "\<exists>x'. settle_transfer M e x = Inr x' \<and> inv x'"
      using transfer_total [OF x] x by (simp add: settle_transfer_def e')
  qed (fact s1(1))
  then show ?thesis using loop by (simp add: state_transition_def)
qed

end

section \<open>Netting\<close>

text \<open>The staging part of the first loop, which no mint touches.\<close>

fun stage_ops :: "signed_operation list \<Rightarrow> staged_transfers \<Rightarrow> staged_transfers" where
  "stage_ops [] staged = staged"
| "stage_ops (op # ops) staged =
     stage_ops ops
       (case operation op of
          Mint _ _ _ \<Rightarrow> staged
        | Transfer from to t a \<Rightarrow> stage_transfer from to t a staged)"

lemma transition_loop_staged:
  "fold_res (transition_step M) ops (s, staged) = Inr (s', staged') \<Longrightarrow> staged' = stage_ops ops staged"
proof (induction ops arbitrary: s staged)
  case (Cons op ops)
  then show ?case
    by (cases "operation op") (auto simp: transition_step_def bind_res_Inr_iff)
qed simp

text \<open>What \<open>x\<close> owes \<open>y\<close> after the transfers of a batch, as an exact integer.\<close>

fun net_owed :: "token_id \<Rightarrow> account_id \<Rightarrow> account_id \<Rightarrow> signed_operation list \<Rightarrow> int" where
  "net_owed t x y [] = 0"
| "net_owed t x y (op # ops) =
     (case operation op of
        Mint _ _ _ \<Rightarrow> 0
      | Transfer from to t' a \<Rightarrow>
          if t' \<noteq> t then 0
          else if from = x \<and> to = y then int (unat a)
          else if from = y \<and> to = x then - int (unat a)
          else 0) + net_owed t x y ops"

fun volume :: "signed_operation list \<Rightarrow> nat" where
  "volume [] = 0"
| "volume (op # ops) =
     (case operation op of Mint _ _ _ \<Rightarrow> 0 | Transfer _ _ _ a \<Rightarrow> unat a) + volume ops"

lemma net_owed_bound: "\<bar>net_owed t x y ops\<bar> \<le> int (volume ops)"
proof (induction ops)
  case (Cons op ops)
  define d where "d = net_owed t x y [op]"
  have "\<bar>d\<bar> \<le> int (volume [op])" unfolding d_def by (cases "operation op") auto
  moreover have "net_owed t x y (op # ops) = d + net_owed t x y ops"
    "volume (op # ops) = volume [op] + volume ops" unfolding d_def by simp_all
  ultimately show ?case using Cons by linarith
qed simp

lemma stage_transfer_get:
  "amount_of (bt_get (stage_transfer from to t a staged) k) = amount_of (bt_get staged k) +
     (if k = fst (canonical_transfer from to t a) then snd (canonical_transfer from to t a) else 0)"
  by (simp add: stage_transfer_def bt_get_upsert Let_def amount_of_def split: option.split)

lemma canonical_transfer_net:
  assumes "x < y"
  shows "(if (t, (x, y)) = fst (canonical_transfer from to t' a) then snd (canonical_transfer from to t' a) else 0)
       = (if t' \<noteq> t then 0 else if from = x \<and> to = y then a else if from = y \<and> to = x then - a else 0)"
proof (cases "from < to")
  case True
  then have "\<not> (from = y \<and> to = x)" using assms less_asym by blast
  then show ?thesis unfolding canonical_transfer_less [OF True] fst_conv snd_conv prod.inject
    by (cases "t' = t"; cases "from = x"; cases "to = y"; cases "from = y"; cases "to = x") simp_all
next
  case False
  then have "\<not> (from = x \<and> to = y)" using assms by blast
  then show ?thesis unfolding canonical_transfer_geq [OF False] fst_conv snd_conv prod.inject
    by (cases "t' = t"; cases "from = x"; cases "to = y"; cases "from = y"; cases "to = x") simp_all
qed

lemma stage_ops_net:
  "x < y \<Longrightarrow>
     amount_of (bt_get (stage_ops ops staged) (t, (x, y)))
       = amount_of (bt_get staged (t, (x, y))) + word_of_int (net_owed t x y ops)"
proof (induction ops arbitrary: staged)
  case (Cons op ops)
  show ?case
  proof (cases "operation op")
    case (Transfer "from" to t' a)
    let ?d = "if t' \<noteq> t then 0 else if from = x \<and> to = y then a else if from = y \<and> to = x then - a else 0"
    have step: "amount_of (bt_get (stage_transfer from to t' a staged) (t, (x, y)))
        = amount_of (bt_get staged (t, (x, y))) + ?d"
      unfolding stage_transfer_get canonical_transfer_net [OF Cons.prems] ..
    have net: "word_of_int (net_owed t x y (op # ops)) = ?d + word_of_int (net_owed t x y ops)"
      using Transfer by simp
    show ?thesis
      unfolding stage_ops.simps Transfer operation.case Cons.IH [OF Cons.prems] step net by (rule add.assoc)
  next
    case (Mint to t' a)
    then show ?thesis using Cons by simp
  qed
qed simp

lemma staged_net_exact:
  assumes "volume ops < 2 ^ 63" "x < y"
  shows "sint (amount_of (bt_get (stage_ops ops []) (t, (x, y)))) = net_owed t x y ops"
proof -
  have "int (volume ops) < 2 ^ 63" using assms(1) by (metis of_nat_less_iff of_nat_numeral of_nat_power)
  with net_owed_bound have "\<bar>net_owed t x y ops\<bar> < 2 ^ 63" by (rule le_less_trans)
  then show ?thesis using stage_ops_net [OF assms(2), of ops "[]" t] by (simp add: sint_word_of_int_u64)
qed

end
