(* ===== verification/Merkle.thy ===== *)
theory Merkle
  imports Hashing Btree_Map
begin

text \<open>
  The Merkle state of \<open>token-ledger-state-v2\<close> (\<open>src/merkle.rs\<close>): the tree of node hashes indexed
  by \<open>u16\<close>, the key-value store over it, the list of known tokens, the state the service
  executes on, and its reconstruction from a witness. The store is generic in the source and
  used with \<open>Balance\<close> (\<open>u64\<close>) only; the model is that instance.
\<close>

section \<open>The tree\<close>

definition TREE_SIZE :: nat where
  "TREE_SIZE = 2 ^ TREE_DEPTH"

definition TREE_HASHES :: nat where
  "TREE_HASHES = TREE_SIZE * 2 - 1"

record merkle_tree =
  hashes :: "(tree_index, hash) btree_map"

definition empty_tree :: merkle_tree where
  "empty_tree = \<lparr>hashes = []\<rparr>"

definition get_hash :: "merkle_tree \<Rightarrow> tree_index \<Rightarrow> hash" where
  "get_hash t ix = (case bt_get (hashes t) ix of Some hash \<Rightarrow> hash | None \<Rightarrow> EMPTY_HASH)"

definition tree_root :: "merkle_tree \<Rightarrow> hash" where
  "tree_root t = get_hash t (of_nat (TREE_HASHES - 1))"

definition set_hash :: "tree_index \<Rightarrow> hash \<Rightarrow> merkle_tree \<Rightarrow> merkle_tree" where
  "set_hash ix h t = t\<lparr>hashes := bt_insert ix h (hashes t)\<rparr>"

text \<open>One round of the loop of \<open>insert\<close>, on its variables \<open>self\<close>, \<open>hash\<close>, \<open>at\<close>, \<open>offset\<close>.\<close>

fun insert_step ::
    "hasher \<Rightarrow> nat \<Rightarrow> merkle_tree \<times> hash \<times> tree_index \<times> tree_index
      \<Rightarrow> merkle_tree \<times> hash \<times> tree_index \<times> tree_index" where
  "insert_step B depth (t, hash, at, offset) =
     (let t = set_hash (offset + at) hash t;
          hash = (if at mod 2 = 0 then hash_pair B hash (get_hash t (offset + at + 1))
                  else hash_pair B (get_hash t (offset + at - 1)) hash)
      in (t, hash, at div 2, offset + push_bit (TREE_DEPTH - depth) 1))"

definition tree_insert :: "hasher \<Rightarrow> tree_index \<Rightarrow> hash \<Rightarrow> merkle_tree \<Rightarrow> merkle_tree" where
  "tree_insert B ix value_hash t =
     (let (t, hash, at, offset) = fold (insert_step B) [0..<TREE_DEPTH] (t, value_hash, ix, 0)
      in set_hash (offset + at) hash t)"

section \<open>The store over the tree\<close>

record key_value =
  kv_value :: u64
  kv_key :: bytes

definition kv_merkle_value :: "hasher \<Rightarrow> key_value \<Rightarrow> hash" where
  "kv_merkle_value B kv = hash_multiple B [balance_merkle_value (kv_value kv), kv_key kv]"

record state_tree =
  key_values :: "(tree_index, key_value) btree_map"
  tree :: merkle_tree

definition empty_state_tree :: state_tree where
  "empty_state_tree = \<lparr>key_values = [], tree = empty_tree\<rparr>"

definition st_get_value :: "hasher \<Rightarrow> bytes \<Rightarrow> state_tree \<Rightarrow> key_value option" where
  "st_get_value B k s =
     (let ix = tree_index_from_key B k
      in case bt_get (key_values s) ix of
           Some v \<Rightarrow> if kv_key v \<noteq> k then None else Some v
         | None \<Rightarrow> None)"

definition st_get :: "hasher \<Rightarrow> bytes \<Rightarrow> state_tree \<Rightarrow> u64 option" where
  "st_get B k s =
     (case st_get_value B k s of
        None \<Rightarrow> None
      | Some v \<Rightarrow> if kv_key v \<noteq> k then None else Some (kv_value v))"

text \<open>\<open>set\<close> returns false and changes nothing where another key holds the leaf.\<close>

definition st_set :: "hasher \<Rightarrow> bytes \<Rightarrow> u64 \<Rightarrow> state_tree \<Rightarrow> bool \<times> state_tree" where
  "st_set B k v s =
     (let ix = tree_index_from_key B k
      in case bt_get (key_values s) ix of
           Some existing \<Rightarrow>
             if kv_key existing = k then
               let existing = existing\<lparr>kv_value := v\<rparr>
               in (True, s\<lparr>key_values := bt_insert ix existing (key_values s),
                           tree := tree_insert B ix (kv_merkle_value B existing) (tree s)\<rparr>)
             else (False, s)
         | None \<Rightarrow>
             let value = \<lparr>kv_value = v, kv_key = k\<rparr>
             in (True, s\<lparr>tree := tree_insert B ix (kv_merkle_value B value) (tree s),
                         key_values := bt_insert ix value (key_values s)\<rparr>))"

definition st_root :: "state_tree \<Rightarrow> hash" where
  "st_root s = tree_root (tree s)"

section \<open>Reconstruction from a witness\<close>

text \<open>The loop over the witness values: the first one that moves the root ends it with \<open>None\<close>.\<close>

fun load_values :: "hasher \<Rightarrow> hash \<Rightarrow> (bytes \<times> u64) list \<Rightarrow> state_tree \<Rightarrow> state_tree option" where
  "load_values B witness_root [] s = Some s"
| "load_values B witness_root ((key, value) # kvs) s =
     (let s = snd (st_set B key value s)
      in if st_root s \<noteq> witness_root then None else load_values B witness_root kvs s)"

definition load_hashes :: "(tree_index \<times> hash) list \<Rightarrow> state_tree" where
  "load_hashes witness_hashes =
     (let s = empty_state_tree
      in s\<lparr>tree := (tree s)\<lparr>hashes := bt_extend witness_hashes (hashes (tree s))\<rparr>\<rparr>)"

definition st_init_from_witness ::
    "hasher \<Rightarrow> (tree_index \<times> hash) list \<Rightarrow> (bytes \<times> u64) list \<Rightarrow> state_tree option" where
  "st_init_from_witness B witness_hashes witness_key_values =
     (let s = load_hashes witness_hashes; witness_root = st_root s
      in load_values B witness_root witness_key_values s)"

section \<open>Known tokens\<close>

record known_tokens =
  token_ids :: "token_id list"

definition known_tokens_merkle_value :: "hasher \<Rightarrow> known_tokens \<Rightarrow> hash" where
  "known_tokens_merkle_value B kt =
     (if length (token_ids kt) > 0 then hash_sequence B token_merkle_value (token_ids kt)
      else EMPTY_HASH)"

definition push_token :: "token_id \<Rightarrow> known_tokens \<Rightarrow> known_tokens" where
  "push_token token_id kt =
     (if \<not> list_ex (\<lambda>t. t = token_id) (token_ids kt)
      then kt\<lparr>token_ids := token_ids kt @ [token_id]\<rparr> else kt)"

definition token_contains :: "token_id \<Rightarrow> known_tokens \<Rightarrow> bool" where
  "token_contains token_id kt = List.member (token_ids kt) token_id"

section \<open>The state\<close>

record state =
  balances :: state_tree
  known_tokens :: known_tokens

record witness =
  wit_hashes :: "(tree_index \<times> hash) list"
  key_value_balances :: "(bytes \<times> u64) list"
  wit_token_ids :: "token_id list"

definition empty_state :: state where
  "empty_state = \<lparr>balances = empty_state_tree, known_tokens = \<lparr>token_ids = []\<rparr>\<rparr>"

definition from_witness :: "hasher \<Rightarrow> witness \<Rightarrow> state option" where
  "from_witness B w =
     (case st_init_from_witness B (wit_hashes w) (key_value_balances w) of
        Some bal \<Rightarrow> Some (empty_state\<lparr>balances := bal, known_tokens := \<lparr>token_ids = wit_token_ids w\<rparr>\<rparr>)
      | None \<Rightarrow> None)"

definition get_root :: "hasher \<Rightarrow> state \<Rightarrow> hash" where
  "get_root B s = hash_pair B (st_root (balances s)) (known_tokens_merkle_value B (known_tokens s))"

text \<open>The \<open>StateOps\<close> of the state; \<open>set_balance\<close> panics on a key collision.\<close>

definition get_balance :: "hasher \<Rightarrow> account_id \<Rightarrow> token_id \<Rightarrow> state \<Rightarrow> u64 option" where
  "get_balance B account token_id s =
     (let to_key = balance_key token_id account in st_get B to_key (balances s))"

definition set_balance :: "hasher \<Rightarrow> account_id \<Rightarrow> token_id \<Rightarrow> u64 \<Rightarrow> state \<Rightarrow> panic + state" where
  "set_balance B account token_id balance s =
     (let to_key = balance_key token_id account;
          (ok, bal) = st_set B to_key balance (balances s)
      in if \<not> ok then Inl KeyCollision else Inr (s\<lparr>balances := bal\<rparr>))"

definition known_tokens_contains :: "token_id \<Rightarrow> state \<Rightarrow> bool" where
  "known_tokens_contains token_id s = token_contains token_id (known_tokens s)"

definition known_tokens_push :: "token_id \<Rightarrow> state \<Rightarrow> state" where
  "known_tokens_push token_id s = s\<lparr>known_tokens := push_token token_id (known_tokens s)\<rparr>"

section \<open>Characteristic equations\<close>

lemma get_hash_empty [simp]: "get_hash empty_tree ix = EMPTY_HASH"
  by (simp add: get_hash_def empty_tree_def)

lemma get_hash_set_hash [simp]: "get_hash (set_hash ix h t) n = (if n = ix then h else get_hash t n)"
  by (simp add: get_hash_def set_hash_def)

lemma TREE_HASHES_root: "of_nat (TREE_HASHES - 1) = (65534 :: tree_index)"
  by (simp add: TREE_HASHES_def TREE_SIZE_def TREE_DEPTH_def)

lemma tree_root_eq: "tree_root t = get_hash t 65534"
  by (simp only: tree_root_def TREE_HASHES_root)

lemma kv_merkle_value_nonempty: "blake2b_nonzero B \<Longrightarrow> kv_merkle_value B kv \<noteq> EMPTY_HASH"
  by (simp add: kv_merkle_value_def hash_multiple_nonempty)

lemma length_kv_merkle_value [simp]: "blake2b_ok B \<Longrightarrow> length (kv_merkle_value B kv) = 32"
  by (simp add: kv_merkle_value_def)

lemma key_value_eta [simp]: "\<lparr>kv_value = kv_value kv, kv_key = kv_key kv\<rparr> = kv"
  by (cases kv) simp

text \<open>What \<open>set\<close> does where it succeeds, whether or not the key was there.\<close>

lemma st_set_True:
  "fst (st_set B k v s) \<Longrightarrow>
     snd (st_set B k v s) =
       s\<lparr>key_values := bt_insert (tree_index_from_key B k) \<lparr>kv_value = v, kv_key = k\<rparr> (key_values s),
         tree := tree_insert B (tree_index_from_key B k)
                   (kv_merkle_value B \<lparr>kv_value = v, kv_key = k\<rparr>) (tree s)\<rparr>"
proof (cases "bt_get (key_values s) (tree_index_from_key B k)")
  case (Some e)
  assume "fst (st_set B k v s)"
  then have "e\<lparr>kv_value := v\<rparr> = \<lparr>kv_value = v, kv_key = k\<rparr>"
    using Some by (cases e) (auto simp: st_set_def Let_def split: if_splits)
  then show ?thesis
    using Some \<open>fst (st_set B k v s)\<close> by (auto simp: st_set_def Let_def split: if_splits)
qed (simp add: st_set_def Let_def)

lemma st_set_False: "\<not> fst (st_set B k v s) \<Longrightarrow> snd (st_set B k v s) = s"
  by (auto simp: st_set_def Let_def split: option.splits if_splits)

lemma st_set_ok_iff:
  "fst (st_set B k v s) \<longleftrightarrow>
     (case bt_get (key_values s) (tree_index_from_key B k) of None \<Rightarrow> True | Some e \<Rightarrow> kv_key e = k)"
  by (auto simp: st_set_def Let_def split: option.splits)

lemma st_get_eq:
  "st_get B k s =
     (case bt_get (key_values s) (tree_index_from_key B k) of
        Some e \<Rightarrow> if kv_key e = k then Some (kv_value e) else None | None \<Rightarrow> None)"
  by (auto simp: st_get_def st_get_value_def Let_def split: option.splits)

text \<open>A successful \<open>set\<close> is a map update for \<open>get\<close>.\<close>

lemma st_get_set:
  assumes "fst (st_set B k v s)"
  shows "st_get B k' (snd (st_set B k v s)) = (if k' = k then Some v else st_get B k' s)"
proof -
  have "case bt_get (key_values s) (tree_index_from_key B k) of None \<Rightarrow> True | Some e \<Rightarrow> kv_key e = k"
    using assms by (simp add: st_set_ok_iff)
  then show ?thesis
    by (auto simp: st_set_True [OF assms] st_get_eq split: option.splits)
qed

lemma load_values_append:
  "load_values B r (kvs @ kvs') s = Option.bind (load_values B r kvs s) (load_values B r kvs')"
  by (induction kvs arbitrary: s) (auto simp: Let_def)

lemma load_values_root: "load_values B r kvs s = Some s' \<Longrightarrow> st_root s = r \<Longrightarrow> st_root s' = r"
  by (induction kvs arbitrary: s) (auto simp: Let_def split: if_splits)

lemma load_hashes_simps [simp]:
  "key_values (load_hashes hs) = []"
  "hashes (tree (load_hashes hs)) = bt_extend hs []"
  by (simp_all add: load_hashes_def empty_state_tree_def empty_tree_def Let_def)

lemma token_contains_iff: "token_contains t kt \<longleftrightarrow> t \<in> set (token_ids kt)"
  by (simp add: token_contains_def)

lemma set_push_token: "set (token_ids (push_token t kt)) = insert t (set (token_ids kt))"
  by (auto simp: push_token_def list_ex_iff)

lemma distinct_push_token: "distinct (token_ids kt) \<Longrightarrow> distinct (token_ids (push_token t kt))"
  by (auto simp: push_token_def list_ex_iff)

end
