(* ===== verification/Merkle_Tree.thy ===== *)
theory Merkle_Tree
  imports Merkle
begin

text \<open>
  The tree of \<open>merkle.rs\<close> against a reference: the node at level \<open>l\<close> and position \<open>p\<close> of a
  complete binary tree over the leaves. The nodes are laid out level by level in one \<open>u16\<close>
  index space; \<open>node\<close> is that layout, \<open>ins_upto\<close> the loop of \<open>insert\<close> in terms of it, and
  \<open>tree_ok\<close> the invariant that every inner node is the hash of its two children.
\<close>

section \<open>The layout of the nodes\<close>

definition level_offset :: "nat \<Rightarrow> nat" where
  "level_offset l = 2 ^ 16 - 2 ^ (16 - l)"

definition node :: "nat \<Rightarrow> nat \<Rightarrow> tree_index" where
  "node l p = of_nat (level_offset l + p)"

definition sibling :: "nat \<Rightarrow> nat \<Rightarrow> tree_index" where
  "sibling l p = node l (if even p then p + 1 else p - 1)"

lemma level_offset_0 [simp]: "level_offset 0 = 0"
  by (simp add: level_offset_def)

lemma level_offset_Suc: "l \<le> 15 \<Longrightarrow> level_offset (Suc l) = level_offset l + 2 ^ (15 - l)"
proof -
  assume l: "l \<le> 15"
  then have "16 - l = Suc (15 - l)" by simp
  then have "(2::nat) ^ (16 - l) = 2 * 2 ^ (15 - l)" by simp
  moreover have "(2::nat) ^ (16 - l) \<le> 2 ^ 16" by (rule power_increasing) simp_all
  ultimately show ?thesis by (simp add: level_offset_def)
qed

lemma level_offset_mono: "l \<le> l' \<Longrightarrow> l' \<le> 16 \<Longrightarrow> level_offset l \<le> level_offset l'"
  unfolding level_offset_def by (intro diff_le_mono2 power_increasing) auto

lemma node_0: "node 0 p = of_nat p"
  by (simp add: node_def)

lemma unat_leaf [simp]: "i < 2 ^ 15 \<Longrightarrow> unat (of_nat i :: tree_index) = i"
  unfolding unat_of_nat by simp

lemma leaf_index_eq: "i < 2 ^ 15 \<Longrightarrow> of_nat i = (ix :: tree_index) \<longleftrightarrow> i = unat ix"
  using unat_leaf by fastforce

lemma unat_node:
  assumes "l \<le> 15" "p < 2 ^ (15 - l)"
  shows "unat (node l p) = level_offset l + p"
proof -
  have "level_offset l + p < level_offset (Suc l)" using assms by (simp add: level_offset_Suc)
  also have "\<dots> \<le> level_offset 16" using assms(1) by (intro level_offset_mono) auto
  finally have "level_offset l + p < 2 ^ 16" by (simp add: level_offset_def)
  then show ?thesis unfolding node_def unat_of_nat by simp
qed

lemma node_level_eq:
  assumes "l \<le> 15" "p < 2 ^ (15 - l)" "l' \<le> 15" "p' < 2 ^ (15 - l')" "node l p = node l' p'"
  shows "l = l'"
proof -
  have eq: "level_offset l + p = level_offset l' + p'"
    using assms unat_node by metis
  have less: "l1 < l2 \<Longrightarrow> l2 \<le> 15 \<Longrightarrow> p1 < 2 ^ (15 - l1) \<Longrightarrow>
      level_offset l1 + p1 < level_offset l2" for l1 l2 p1
    using level_offset_Suc [of l1] level_offset_mono [of "Suc l1" l2] by simp
  show ?thesis
    using less [of l l' p] less [of l' l p'] assms eq by (metis linorder_neqE_nat not_add_less1)
qed

lemma node_eq_iff:
  assumes "l \<le> 15" "p < 2 ^ (15 - l)" "l' \<le> 15" "p' < 2 ^ (15 - l')"
  shows "node l p = node l' p' \<longleftrightarrow> l = l' \<and> p = p'"
  using assms node_level_eq [OF assms] unat_node by (metis add_left_cancel)

lemma div_pow_less: "i < 2 ^ 15 \<Longrightarrow> l \<le> 15 \<Longrightarrow> i div 2 ^ l < 2 ^ (15 - l)" for i :: nat
  by (simp add: less_mult_imp_div_less flip: power_add)

lemma sibling_position: "(p :: nat) < 2 ^ (15 - l) \<Longrightarrow> l < 15 \<Longrightarrow> (if even p then p + 1 else p - 1) < 2 ^ (15 - l)"
proof -
  assume p: "p < 2 ^ (15 - l)" and l: "l < 15"
  have "even ((2::nat) ^ (15 - l))" using l by simp
  then obtain m where m: "(2::nat) ^ (15 - l) = 2 * m" by (rule evenE)
  show ?thesis using p unfolding m by presburger
qed

lemma root_node: "node 15 0 = 65534"
  by (simp add: node_def level_offset_def)

section \<open>The loop of insert\<close>

fun ins_upto :: "hasher \<Rightarrow> merkle_tree \<Rightarrow> hash \<Rightarrow> nat \<Rightarrow> nat \<Rightarrow> merkle_tree \<times> hash" where
  "ins_upto B t v i 0 = (t, v)"
| "ins_upto B t v i (Suc l) =
     (let (t', h) = ins_upto B t v i l; p = i div 2 ^ l; t' = set_hash (node l p) h t'
      in (t', if even p then hash_pair B h (get_hash t' (sibling l p))
              else hash_pair B (get_hash t' (sibling l p)) h))"

lemma node_word: "of_nat (level_offset l) + of_nat p = node l p"
  by (simp add: node_def)

lemma node_add_1: "node l p + 1 = node l (p + 1)"
  by (simp add: node_def)

lemma node_minus_1: "odd p \<Longrightarrow> node l p - 1 = node l (p - 1)"
  by (auto simp: node_def elim!: oddE)

lemma at_word:
  fixes ix :: tree_index
  shows unat_at: "unat (of_nat (unat ix div 2 ^ l) :: tree_index) = unat ix div 2 ^ l"
    and at_half: "(of_nat (unat ix div 2 ^ l) :: tree_index) div 2 = of_nat (unat ix div 2 ^ Suc l)"
    and at_parity: "((of_nat (unat ix div 2 ^ l) :: tree_index) mod 2 = 0) = even (unat ix div 2 ^ l)"
proof -
  show small: "unat (of_nat (unat ix div 2 ^ m) :: tree_index) = unat ix div 2 ^ m" for m
  proof -
    have "unat ix div 2 ^ m < 2 ^ 16"
      by (rule le_less_trans [OF div_le_dividend]) (use unsigned_less [of ix, where 'a = nat] in simp)
    then show ?thesis by (simp add: unat_of_nat)
  qed
  have "unat ((of_nat (unat ix div 2 ^ l) :: tree_index) div 2)
      = unat (of_nat (unat ix div 2 ^ Suc l) :: tree_index)"
    unfolding small unat_div small by (simp add: div_mult2_eq power_Suc2 del: power_Suc)
  then show "(of_nat (unat ix div 2 ^ l) :: tree_index) div 2 = of_nat (unat ix div 2 ^ Suc l)"
    by (rule unsigned_word_eqI)
  show "((of_nat (unat ix div 2 ^ l) :: tree_index) mod 2 = 0) = even (unat ix div 2 ^ l)"
    using small [of l] by (metis even_iff_mod_2_eq_zero even_unat)
qed

lemma offset_Suc_word:
  "l < 15 \<Longrightarrow>
     of_nat (level_offset l) + push_bit (TREE_DEPTH - l) 1 = (of_nat (level_offset (Suc l)) :: tree_index)"
  by (simp add: level_offset_Suc TREE_DEPTH_def push_bit_eq_mult)

lemma insert_step_node:
  assumes "l < 15"
  shows "insert_step B l (t, h, of_nat (unat ix div 2 ^ l), of_nat (level_offset l)) =
    (let p = unat ix div 2 ^ l; t' = set_hash (node l p) h t
     in (t', if even p then hash_pair B h (get_hash t' (sibling l p))
             else hash_pair B (get_hash t' (sibling l p)) h,
         of_nat (unat (ix :: tree_index) div 2 ^ Suc l), of_nat (level_offset (Suc l))))"
  by (cases "even (unat ix div 2 ^ l)")
    (simp_all only: insert_step.simps node_word at_half at_parity offset_Suc_word [OF assms]
      node_add_1 node_minus_1 sibling_def Let_def if_True if_False simp_thms)

lemma insert_loop:
  "l \<le> 15 \<Longrightarrow>
     fold (insert_step B) [0..<l] (t, v, ix, 0) =
       (let (t', h) = ins_upto B t v (unat ix) l
        in (t', h, of_nat (unat ix div 2 ^ l), of_nat (level_offset l)))"
proof (induction l)
  case (Suc l)
  obtain t' h where ih: "ins_upto B t v (unat ix) l = (t', h)"
    by (cases "ins_upto B t v (unat ix) l")
  from Suc show ?case
    by (simp add: ih insert_step_node Let_def del: insert_step.simps power_Suc)
qed simp

lemma tree_insert_eq:
  "tree_insert B ix v t =
     (let (t', h) = ins_upto B t v (unat ix) 15 in set_hash (node 15 (unat ix div 2 ^ 15)) h t')"
  by (simp add: tree_insert_def TREE_DEPTH_def insert_loop node_word Let_def split: prod.split)

section \<open>What insert reads and writes\<close>

definition path_nodes :: "tree_index \<Rightarrow> tree_index set" where
  "path_nodes ix = {node l (unat ix div 2 ^ l) | l. l \<le> 15}"

definition sibling_nodes :: "tree_index \<Rightarrow> tree_index set" where
  "sibling_nodes ix = {sibling l (unat ix div 2 ^ l) | l. l < 15}"

text \<open>Two trees with the same hashes at the siblings get the same hashes along the path.\<close>

lemma ins_upto_agree:
  assumes "\<And>m. m < l \<Longrightarrow> get_hash t (sibling m (i div 2 ^ m)) = get_hash u (sibling m (i div 2 ^ m))"
  shows "snd (ins_upto B t v i l) = snd (ins_upto B u v i l) \<and>
    (\<forall>n. get_hash t n = get_hash u n \<or> (\<exists>m<l. n = node m (i div 2 ^ m)) \<longrightarrow>
        get_hash (fst (ins_upto B t v i l)) n = get_hash (fst (ins_upto B u v i l)) n)"
  using assms
proof (induction l)
  case (Suc l)
  obtain t' h where t': "ins_upto B t v i l = (t', h)" by (cases "ins_upto B t v i l")
  obtain u' h' where u': "ins_upto B u v i l = (u', h')" by (cases "ins_upto B u v i l")
  have ih: "h = h'" "\<And>n. get_hash t n = get_hash u n \<or> (\<exists>m<l. n = node m (i div 2 ^ m)) \<Longrightarrow>
      get_hash t' n = get_hash u' n"
    using Suc by (auto simp: t' u')
  moreover have "get_hash t' (sibling l (i div 2 ^ l)) = get_hash u' (sibling l (i div 2 ^ l))"
    using Suc.prems ih(2) by blast
  ultimately show ?case by (auto simp: t' u' Let_def less_Suc_eq)
qed simp

lemma tree_insert_agree:
  assumes "\<And>n. n \<in> sibling_nodes ix \<Longrightarrow> get_hash t n = get_hash u n"
    and "get_hash t n = get_hash u n \<or> n \<in> path_nodes ix"
  shows "get_hash (tree_insert B ix v t) n = get_hash (tree_insert B ix v u) n"
proof -
  have sib: "\<And>m. m < 15 \<Longrightarrow>
      get_hash t (sibling m (unat ix div 2 ^ m)) = get_hash u (sibling m (unat ix div 2 ^ m))"
    using assms(1) by (auto simp: sibling_nodes_def)
  have n: "get_hash t n = get_hash u n \<or> (\<exists>m<15. n = node m (unat ix div 2 ^ m)) \<or>
      n = node 15 (unat ix div 2 ^ 15)"
    using assms(2) by (auto simp: path_nodes_def order_le_less)
  show ?thesis
    using ins_upto_agree [of 15 t "unat ix" u B v, OF sib] n
    by (auto simp: tree_insert_eq Let_def split: prod.splits)
qed

lemma ins_upto_other:
  "\<forall>m<l. n \<noteq> node m (i div 2 ^ m) \<Longrightarrow> get_hash (fst (ins_upto B t v i l)) n = get_hash t n"
  by (induction l) (auto simp: Let_def split: prod.splits)

lemma tree_insert_other:
  assumes "n \<notin> path_nodes ix"
  shows "get_hash (tree_insert B ix v t) n = get_hash t n"
proof -
  have "n \<noteq> node m (unat ix div 2 ^ m)" if "m \<le> 15" for m
    using assms that by (auto simp: path_nodes_def)
  from this [of 15] this show ?thesis
    using ins_upto_other [of 15 n "unat ix" B t v]
    by (auto simp: tree_insert_eq Let_def split: prod.splits)
qed

text \<open>Every hash along the path is one of a node that is not empty.\<close>

lemma ins_upto_nonempty:
  assumes "blake2b_nonzero B" "v \<noteq> EMPTY_HASH"
    and ok: "blake2b_ok B" "v \<noteq> []"
  shows "snd (ins_upto B t v i l) \<noteq> EMPTY_HASH \<and> snd (ins_upto B t v i l) \<noteq> [] \<and>
    (\<forall>m<l. get_hash (fst (ins_upto B t v i l)) (node m (i div 2 ^ m)) \<noteq> EMPTY_HASH)"
proof (induction l)
  case (Suc l)
  have "hash_pair B a b \<noteq> []" for a b
    using length_hash_pair [OF ok(1), of a b] by (metis list.size(3) zero_neq_numeral)
  with Suc show ?case
    using hash_pair_nonempty [OF assms(1)]
    by (auto simp: Let_def less_Suc_eq split: prod.splits)
qed (use assms in auto)

lemma tree_insert_nonempty:
  assumes "blake2b_nonzero B" "v \<noteq> EMPTY_HASH" "blake2b_ok B" "v \<noteq> []" "n \<in> path_nodes ix"
  shows "get_hash (tree_insert B ix v t) n \<noteq> EMPTY_HASH"
proof -
  have n: "(\<exists>m<15. n = node m (unat ix div 2 ^ m)) \<or> n = node 15 (unat ix div 2 ^ 15)"
    using assms(5) by (auto simp: path_nodes_def order_le_less)
  show ?thesis
    using ins_upto_nonempty [OF assms(1-4), of t "unat ix" 15] n
    by (auto simp: tree_insert_eq Let_def split: prod.splits)
qed

section \<open>The hashes along the path of a leaf\<close>

fun path_hash :: "hasher \<Rightarrow> (tree_index \<Rightarrow> hash) \<Rightarrow> hash \<Rightarrow> nat \<Rightarrow> nat \<Rightarrow> hash" where
  "path_hash B f v i 0 = v"
| "path_hash B f v i (Suc l) =
     (let p = i div 2 ^ l; h = path_hash B f v i l
      in if even p then hash_pair B h (f (sibling l p)) else hash_pair B (f (sibling l p)) h)"

lemma sibling_not_path:
  assumes "i < 2 ^ 15" "l < 15" "m \<le> 15"
  shows "sibling l (i div 2 ^ l) \<noteq> node m (i div 2 ^ m)"
proof
  let ?p = "i div 2 ^ l" and ?q = "i div 2 ^ m"
  define s where "s = (if even ?p then ?p + 1 else ?p - 1)"
  assume eq: "sibling l ?p = node m ?q"
  have p: "?p < 2 ^ (15 - l)" and q: "?q < 2 ^ (15 - m)" using assms by (simp_all add: div_pow_less)
  have "s < 2 ^ (15 - l)" unfolding s_def using p assms(2) by (rule sibling_position)
  moreover have "node l s = node m ?q" using eq by (simp add: sibling_def s_def)
  ultimately have "l = m \<and> s = ?q" using q assms by (simp add: node_eq_iff)
  then show False by (auto simp: s_def split: if_splits elim!: oddE)
qed

lemma ins_upto_path:
  assumes "i < 2 ^ 15" "l \<le> 15"
  shows "snd (ins_upto B t v i l) = path_hash B (get_hash t) v i l \<and>
    (\<forall>m<l. get_hash (fst (ins_upto B t v i l)) (node m (i div 2 ^ m)) = path_hash B (get_hash t) v i m)"
  using assms(2)
proof (induction l)
  case (Suc l)
  obtain t' h where t': "ins_upto B t v i l = (t', h)" by (cases "ins_upto B t v i l")
  have sib: "get_hash t' (sibling l (i div 2 ^ l)) = get_hash t (sibling l (i div 2 ^ l))"
    using ins_upto_other [of l "sibling l (i div 2 ^ l)" i B t v] sibling_not_path [OF assms(1)] Suc.prems
    by (simp add: t')
  have "sibling l (i div 2 ^ l) \<noteq> node l (i div 2 ^ l)"
    using sibling_not_path [OF assms(1)] Suc.prems by simp
  moreover have "node m (i div 2 ^ m) \<noteq> node l (i div 2 ^ l)" if "m < l" for m
    using that assms(1) Suc.prems by (simp add: node_eq_iff div_pow_less)
  ultimately show ?case
    using Suc sib by (auto simp: t' Let_def less_Suc_eq)
qed simp

lemma tree_insert_path:
  assumes "unat ix < 2 ^ 15" "m \<le> 15"
  shows "get_hash (tree_insert B ix v t) (node m (unat ix div 2 ^ m))
    = path_hash B (get_hash t) v (unat ix) m"
proof -
  have "node m (unat ix div 2 ^ m) = node 15 (unat ix div 2 ^ 15) \<longleftrightarrow> m = 15"
    using assms node_eq_iff [of m "unat ix div 2 ^ m" 15 "unat ix div 2 ^ 15"] div_pow_less [OF assms(1)]
    by auto
  then show ?thesis
    using ins_upto_path [OF assms(1), of 15 B t v] assms(2)
    by (auto simp: tree_insert_eq Let_def order_le_less split: prod.splits)
qed

lemma tree_insert_off_path:
  assumes "unat ix < 2 ^ 15" "m \<le> 15" "p < 2 ^ (15 - m)" "p \<noteq> unat ix div 2 ^ m"
  shows "get_hash (tree_insert B ix v t) (node m p) = get_hash t (node m p)"
  using assms by (intro tree_insert_other) (auto simp: path_nodes_def node_eq_iff div_pow_less)

end
