(* ===== verification/Merkle_Spec.thy ===== *)
theory Merkle_Spec
  imports Merkle_Tree
begin

text \<open>
  What the store promises. \<open>ref_node\<close> is the textbook Merkle tree over a leaf assignment;
  \<open>store_ok\<close> says that the node table is that tree over the leaves of the stored entries. Both
  are kept by \<open>st_set\<close> on keys whose index is a leaf, so the root is a function of the contents;
  two stores with one root agree on every leaf, or a collision sits on the leaf's path; and an
  entry that \<open>st_init_from_witness\<close> accepts is one of the store the root commits to.
\<close>

section \<open>The reference tree\<close>

fun ref_node :: "hasher \<Rightarrow> (nat \<Rightarrow> hash) \<Rightarrow> nat \<Rightarrow> nat \<Rightarrow> hash" where
  "ref_node B f 0 p = f p"
| "ref_node B f (Suc l) p = hash_pair B (ref_node B f l (2 * p)) (ref_node B f l (2 * p + 1))"

definition ref_root :: "hasher \<Rightarrow> (nat \<Rightarrow> hash) \<Rightarrow> hash" where
  "ref_root B f = ref_node B f TREE_DEPTH 0"

definition tree_ok :: "hasher \<Rightarrow> merkle_tree \<Rightarrow> bool" where
  "tree_ok B t \<longleftrightarrow>
     (\<forall>l<15. \<forall>p<2 ^ (14 - l).
        get_hash t (node (Suc l) p)
          = hash_pair B (get_hash t (node l (2 * p))) (get_hash t (node l (2 * p + 1))))"

lemma tree_ok_empty [simp]: "tree_ok B empty_tree"
  by (simp add: tree_ok_def)

lemma tree_ok_insert:
  assumes ok: "tree_ok B t" and ix: "unat ix < 2 ^ 15"
  shows "tree_ok B (tree_insert B ix v t)"
  unfolding tree_ok_def
proof (intro allI impI)
  fix l p :: nat
  assume l: "l < 15" and p: "p < 2 ^ (14 - l)"
  let ?P = "unat ix div 2 ^ l" and ?t = "tree_insert B ix v t"
  have up: "unat ix div 2 ^ Suc l = ?P div 2" by (simp add: div_mult2_eq power_Suc2 del: power_Suc)
  have "15 - l = Suc (14 - l)" using l by simp
  then have child: "2 * p < 2 ^ (15 - l)" "2 * p + 1 < 2 ^ (15 - l)" using p by auto
  have off: "q \<noteq> ?P \<Longrightarrow> q < 2 ^ (15 - l) \<Longrightarrow> get_hash ?t (node l q) = get_hash t (node l q)" for q
    using l ix by (simp add: tree_insert_off_path)
  have on: "get_hash ?t (node l ?P) = path_hash B (get_hash t) v (unat ix) l"
    using tree_insert_path [OF ix, of l] l by simp
  show "get_hash ?t (node (Suc l) p) = hash_pair B (get_hash ?t (node l (2 * p))) (get_hash ?t (node l (2 * p + 1)))"
  proof (cases "p = ?P div 2")
    case True
    have "get_hash ?t (node (Suc l) p) = path_hash B (get_hash t) v (unat ix) (Suc l)"
      using tree_insert_path [OF ix, of "Suc l"] l up True by simp
    then show ?thesis
    proof (cases "even ?P")
      case even: True
      then have "?P = 2 * p" using True by simp
      then show ?thesis
        using \<open>get_hash ?t (node (Suc l) p) = _\<close> on off [of "2 * p + 1"] child
        by (simp add: sibling_def Let_def)
    next
      case odd: False
      then have "?P = 2 * p + 1" using True by (simp add: odd_two_times_div_two_succ)
      then show ?thesis
        using \<open>get_hash ?t (node (Suc l) p) = _\<close> on off [of "2 * p"] child
        by (simp add: sibling_def Let_def)
    qed
  next
    case False
    then have "2 * p \<noteq> ?P" "2 * p + 1 \<noteq> ?P" by auto
    moreover have "get_hash ?t (node (Suc l) p) = get_hash t (node (Suc l) p)"
      using False up l p ix by (intro tree_insert_off_path) auto
    ultimately show ?thesis using off child ok l p by (simp add: tree_ok_def)
  qed
qed

lemma tree_ok_ref_node:
  assumes "tree_ok B t" "l \<le> 15" "p < 2 ^ (15 - l)"
  shows "get_hash t (node l p) = ref_node B (\<lambda>i. get_hash t (node 0 i)) l p"
  using assms(2,3)
proof (induction l arbitrary: p)
  case (Suc l)
  then have "15 - l = Suc (14 - l)" by simp
  then have "2 * p < 2 ^ (15 - l)" "2 * p + 1 < 2 ^ (15 - l)" using Suc.prems by auto
  then show ?case using Suc assms(1) by (simp add: tree_ok_def)
qed simp

lemma ref_node_cong:
  "(\<And>i. p * 2 ^ l \<le> i \<Longrightarrow> i < (p + 1) * 2 ^ l \<Longrightarrow> f i = g i) \<Longrightarrow> ref_node B f l p = ref_node B g l p"
proof (induction l arbitrary: p)
  case (Suc l)
  have "ref_node B f l (2 * p) = ref_node B g l (2 * p)"
    "ref_node B f l (2 * p + 1) = ref_node B g l (2 * p + 1)"
    by (rule Suc.IH, rule Suc.prems, simp_all add: algebra_simps)+
  then show ?case by simp
qed simp

lemma ref_root_cong: "(\<And>i. i < 2 ^ 15 \<Longrightarrow> f i = g i) \<Longrightarrow> ref_root B f = ref_root B g"
  unfolding ref_root_def TREE_DEPTH_def by (rule ref_node_cong) simp

section \<open>The invariant of the store\<close>

definition leaf_hash :: "hasher \<Rightarrow> (tree_index, key_value) btree_map \<Rightarrow> nat \<Rightarrow> hash" where
  "leaf_hash B kvs i =
     (case bt_get kvs (of_nat i) of None \<Rightarrow> EMPTY_HASH | Some kv \<Rightarrow> kv_merkle_value B kv)"

definition leaf_key :: "hasher \<Rightarrow> bytes \<Rightarrow> bool" where
  "leaf_key B k \<longleftrightarrow> unat (tree_index_from_key B k) < 2 ^ 15"

definition store_ok :: "hasher \<Rightarrow> state_tree \<Rightarrow> bool" where
  "store_ok B s \<longleftrightarrow>
     tree_ok B (tree s) \<and> bt_ok (key_values s) \<and>
     (\<forall>ix kv. bt_get (key_values s) ix = Some kv \<longrightarrow>
        tree_index_from_key B (kv_key kv) = ix \<and> leaf_key B (kv_key kv)) \<and>
     (\<forall>i<2 ^ 15. get_hash (tree s) (node 0 i) = leaf_hash B (key_values s) i)"

lemma store_ok_empty [simp]: "store_ok B empty_state_tree"
  by (simp add: store_ok_def empty_state_tree_def leaf_hash_def)

lemma store_ok_set:
  assumes ok: "store_ok B s" and key: "leaf_key B k"
  shows "store_ok B (snd (st_set B k v s))"
proof (cases "fst (st_set B k v s)")
  case True
  let ?ix = "tree_index_from_key B k" and ?kv = "\<lparr>kv_value = v, kv_key = k\<rparr>"
  have ix: "unat ?ix < 2 ^ 15" using key by (simp add: leaf_key_def)
  have leaf: "get_hash (tree_insert B ?ix (kv_merkle_value B ?kv) (tree s)) (node 0 i)
      = leaf_hash B (bt_insert ?ix ?kv (key_values s)) i" if "i < 2 ^ 15" for i
  proof (cases "i = unat ?ix")
    case True
    then show ?thesis
      using tree_insert_path [OF ix, of 0 B "kv_merkle_value B ?kv" "tree s"] by (simp add: leaf_hash_def)
  next
    case False
    then have "(of_nat i :: tree_index) \<noteq> ?ix" using that unat_leaf by metis
    then show ?thesis
      using False that ok tree_insert_off_path [OF ix, of 0 i B "kv_merkle_value B ?kv" "tree s"]
      by (simp add: leaf_hash_def store_ok_def)
  qed
  show ?thesis
    using ok key leaf tree_ok_insert [OF _ ix, of B "tree s" "kv_merkle_value B ?kv"]
    unfolding store_ok_def st_set_True [OF True] by (auto simp: split: if_splits)
next
  case False
  then show ?thesis using ok by (simp add: st_set_False)
qed

lemma st_root_ref:
  assumes "store_ok B s"
  shows "st_root s = ref_root B (leaf_hash B (key_values s))"
proof -
  have "st_root s = ref_node B (\<lambda>i. get_hash (tree s) (node 0 i)) 15 0"
    using assms tree_ok_ref_node [of B "tree s" 15 0]
    by (simp add: st_root_def tree_root_eq root_node store_ok_def)
  also have "\<dots> = ref_root B (leaf_hash B (key_values s))"
    using assms unfolding ref_root_def TREE_DEPTH_def by (intro ref_node_cong) (simp add: store_ok_def)
  finally show ?thesis .
qed

section \<open>Collisions on a path\<close>

text \<open>
  BLAKE2b has collisions, so injectivity would be a hypothesis that nothing satisfies. The
  theorems name the pair instead: two different inputs of \<open>hash_pair\<close> with one hash, among the
  inputs the two trees hash on the path of the leaf in question.
\<close>

definition collides :: "hasher \<Rightarrow> hash \<times> hash \<Rightarrow> hash \<times> hash \<Rightarrow> bool" where
  "collides B x y \<longleftrightarrow> x \<noteq> y \<and> hash_pair B (fst x) (snd x) = hash_pair B (fst y) (snd y)"

definition ref_children :: "hasher \<Rightarrow> (nat \<Rightarrow> hash) \<Rightarrow> nat \<Rightarrow> nat \<Rightarrow> hash \<times> hash" where
  "ref_children B f m i =
     (ref_node B f m (2 * (i div 2 ^ Suc m)), ref_node B f m (2 * (i div 2 ^ Suc m) + 1))"

definition path_children ::
    "hasher \<Rightarrow> (tree_index \<Rightarrow> hash) \<Rightarrow> hash \<Rightarrow> nat \<Rightarrow> nat \<Rightarrow> hash \<times> hash" where
  "path_children B f v m i =
     (let p = i div 2 ^ m; h = path_hash B f v i m
      in if even p then (h, f (sibling m p)) else (f (sibling m p), h))"

lemma half_position: "i div 2 ^ Suc l = (i div 2 ^ l) div 2" for i :: nat
  by (simp add: div_mult2_eq power_Suc2 del: power_Suc)

lemma two_halves: "even p \<Longrightarrow> p = 2 * (p div 2)" "odd p \<Longrightarrow> p = 2 * (p div 2) + 1" for p :: nat
  by presburger+

lemma ref_binding:
  "ref_node B f l (i div 2 ^ l) = ref_node B g l (i div 2 ^ l) \<Longrightarrow>
     (\<forall>m<l. \<not> collides B (ref_children B f m i) (ref_children B g m i)) \<Longrightarrow> f i = g i"
proof (induction l)
  case (Suc l)
  then have "ref_children B f l i = ref_children B g l i"
    by (auto simp: collides_def ref_children_def simp del: power_Suc)
  moreover have "i div 2 ^ l = 2 * (i div 2 ^ Suc l) \<or> i div 2 ^ l = 2 * (i div 2 ^ Suc l) + 1"
    unfolding half_position using two_halves by blast
  ultimately have "ref_node B f l (i div 2 ^ l) = ref_node B g l (i div 2 ^ l)"
    unfolding ref_children_def by (metis prod.inject)
  then show ?case using Suc by simp
qed simp

lemma path_binding:
  "path_hash B f v i l = ref_node B g l (i div 2 ^ l) \<Longrightarrow>
     (\<forall>m<l. \<not> collides B (path_children B f v m i) (ref_children B g m i)) \<Longrightarrow> v = g i"
proof (induction l)
  case (Suc l)
  let ?p = "i div 2 ^ l" and ?q = "i div 2 ^ Suc l"
  have "path_hash B f v i (Suc l) = hash_pair B (fst (path_children B f v l i)) (snd (path_children B f v l i))"
    by (simp add: path_children_def Let_def)
  then have "path_children B f v l i = ref_children B g l i"
    using Suc.prems by (auto simp: collides_def ref_children_def simp del: power_Suc path_hash.simps)
  moreover have "even ?p \<Longrightarrow> ?p = 2 * ?q" "odd ?p \<Longrightarrow> ?p = 2 * ?q + 1"
    unfolding half_position by (fact two_halves)+
  ultimately have "path_hash B f v i l = ref_node B g l ?p"
    unfolding path_children_def ref_children_def Let_def by (metis prod.inject)
  then show ?case using Suc by simp
qed simp

text \<open>
  A path hashed with the siblings of a well-formed tree is that tree's path: what an honest
  witness carries loads without a collision.
\<close>

lemma path_hash_tree:
  assumes ok: "tree_ok B t" and i: "i < 2 ^ 15"
    and sib: "\<forall>m<l. f (sibling m (i div 2 ^ m)) = get_hash t (sibling m (i div 2 ^ m))"
  shows "l \<le> 15 \<Longrightarrow> path_hash B f (get_hash t (node 0 i)) i l = get_hash t (node l (i div 2 ^ l))"
  using sib
proof (induction l)
  case (Suc l)
  let ?p = "i div 2 ^ l"
  have l: "l < 15" using Suc.prems by simp
  have "?p div 2 < 2 ^ (14 - l)"
    using div_pow_less [OF i, of "Suc l"] l by (simp add: half_position del: power_Suc)
  then have up: "get_hash t (node (Suc l) (?p div 2))
      = hash_pair B (get_hash t (node l (2 * (?p div 2)))) (get_hash t (node l (2 * (?p div 2) + 1)))"
    using ok l by (simp add: tree_ok_def)
  have sl: "f (sibling l ?p) = get_hash t (sibling l ?p)" using Suc.prems by simp
  have ih: "path_hash B f (get_hash t (node 0 i)) i l = get_hash t (node l ?p)" using Suc by simp
  show ?case
  proof (cases "even ?p")
    case True
    then have "2 * (?p div 2) = ?p" by simp
    then show ?thesis using up ih sl True by (simp add: half_position sibling_def Let_def del: power_Suc)
  next
    case False
    then have "2 * (?p div 2) + 1 = ?p" "2 * (?p div 2) = ?p - 1" by simp_all
    then show ?thesis using up ih sl False by (simp add: half_position sibling_def Let_def del: power_Suc)
  qed
qed simp

lemma path_children_tree:
  assumes s: "store_ok B s" and i: "i < 2 ^ 15" and l: "l < 15"
    and sib: "\<forall>m\<le>l. f (sibling m (i div 2 ^ m)) = get_hash (tree s) (sibling m (i div 2 ^ m))"
  shows "path_children B f (leaf_hash B (key_values s) i) l i
    = ref_children B (leaf_hash B (key_values s)) l i"
proof -
  let ?p = "i div 2 ^ l" and ?f = "leaf_hash B (key_values s)"
  have t: "tree_ok B (tree s)" using s by (simp add: store_ok_def)
  have p: "?p < 2 ^ (15 - l)" using div_pow_less [OF i] l by simp
  have ref: "get_hash (tree s) (node l q) = ref_node B ?f l q" if "q < 2 ^ (15 - l)" for q
  proof -
    have "(q + 1) * 2 ^ l \<le> 2 ^ (15 - l) * 2 ^ l" using that by (intro mult_right_mono) auto
    also have "\<dots> = 2 ^ 15" using l by (simp flip: power_add)
    finally have "ref_node B (\<lambda>i. get_hash (tree s) (node 0 i)) l q = ref_node B ?f l q"
      using s by (intro ref_node_cong) (simp add: store_ok_def)
    then show ?thesis using tree_ok_ref_node [OF t _ that] l by simp
  qed
  have "path_hash B f (?f i) i l = get_hash (tree s) (node l ?p)"
    using path_hash_tree [OF t i, of l f] sib s i l by (simp add: store_ok_def)
  moreover have "f (sibling l ?p) = get_hash (tree s) (sibling l ?p)" using sib by simp
  ultimately have path: "path_hash B f (?f i) i l = ref_node B ?f l ?p"
    and sl: "f (sibling l ?p) = ref_node B ?f l (if even ?p then ?p + 1 else ?p - 1)"
    using ref [OF p] ref [OF sibling_position [OF p l]] by (simp_all add: sibling_def)
  show ?thesis
  proof (cases "even ?p")
    case True
    then show ?thesis
      using path sl by (simp add: path_children_def ref_children_def half_position Let_def del: power_Suc)
  next
    case False
    then have "2 * (?p div 2) + 1 = ?p" "2 * (?p div 2) = ?p - 1" by simp_all
    then show ?thesis
      using False path sl
      by (simp add: path_children_def ref_children_def half_position Let_def del: power_Suc)
  qed
qed

text \<open>The values at one leaf of two stores: the same, or two entries with one hash.\<close>

definition leaf_injective ::
    "hasher \<Rightarrow> key_value \<Rightarrow> state_tree \<Rightarrow> bool" where
  "leaf_injective B kv s \<longleftrightarrow>
     (case bt_get (key_values s) (tree_index_from_key B (kv_key kv)) of
        None \<Rightarrow> True
      | Some kv' \<Rightarrow> kv_merkle_value B kv' = kv_merkle_value B kv \<longrightarrow> kv' = kv)"

lemma leaf_hash_entry:
  assumes "blake2b_nonzero B" "leaf_injective B kv s"
    and "leaf_hash B (key_values s) (unat (tree_index_from_key B (kv_key kv))) = kv_merkle_value B kv"
  shows "bt_get (key_values s) (tree_index_from_key B (kv_key kv)) = Some kv"
  using assms kv_merkle_value_nonempty [OF assms(1), of kv]
  by (auto simp: leaf_hash_def leaf_injective_def split: option.splits)

section \<open>Leaves above other leaves' parents\<close>

text \<open>
  An index of \<open>2 ^ 15\<close> or more is no leaf. The loop of \<open>insert\<close> then starts at an inner node: for
  the index \<open>2 ^ 15 + i div 2\<close> it is the parent of leaf \<open>i\<close>.
\<close>

lemma parent_path:
  assumes "unat ix < 2 ^ 15" "unat jx = 2 ^ 15 + unat ix div 2"
  shows "path_nodes jx \<subseteq> path_nodes ix \<union> {65535}"
proof
  fix n assume "n \<in> path_nodes jx"
  then obtain l where l: "l \<le> 15" and n: "n = node l (unat jx div 2 ^ l)" by (auto simp: path_nodes_def)
  show "n \<in> path_nodes ix \<union> {65535}"
  proof (cases "l = 15")
    case True
    have "unat ix div 2 < 2 ^ 15" using assms(1) by simp
    then have "unat jx div 2 ^ 15 = 1" unfolding assms(2) by simp
    then show ?thesis using True by (simp add: n node_def level_offset_def)
  next
    case False
    then have "l < 15" using l by simp
    have "(2 ^ 15 :: nat) = 2 ^ (15 - l) * 2 ^ l" using \<open>l < 15\<close> by (simp flip: power_add)
    then have "unat jx = unat ix div 2 + 2 ^ (15 - l) * 2 ^ l" using assms(2) by simp
    then have "unat jx div 2 ^ l = 2 ^ (15 - l) + unat ix div 2 div 2 ^ l" by simp
    then have "unat jx div 2 ^ l = 2 ^ (15 - l) + unat ix div 2 ^ Suc l" by (simp add: div_mult2_eq)
    then have "n = node (Suc l) (unat ix div 2 ^ Suc l)"
      using \<open>l < 15\<close> by (simp add: n node_def level_offset_Suc del: power_Suc)
    then show ?thesis using \<open>l < 15\<close> unfolding path_nodes_def by (auto intro!: exI [of _ "Suc l"])
  qed
qed

lemma sibling_nodes_avoid:
  assumes "unat ix < 2 ^ 15" "n \<in> sibling_nodes ix"
  shows "n \<notin> path_nodes ix \<union> {65535}"
proof -
  obtain l where l: "l < 15" and n: "n = sibling l (unat ix div 2 ^ l)"
    using assms(2) by (auto simp: sibling_nodes_def)
  have "n \<notin> path_nodes ix" using sibling_not_path [OF assms(1) l] by (auto simp: n path_nodes_def)
  moreover have "n \<noteq> 65535"
  proof -
    define q where "q = (if even (unat ix div 2 ^ l) then unat ix div 2 ^ l + 1 else unat ix div 2 ^ l - 1)"
    have "q < 2 ^ (15 - l)"
      unfolding q_def using div_pow_less [OF assms(1)] l by (intro sibling_position) auto
    then have "unat n = level_offset l + q" using l by (simp add: n sibling_def unat_node flip: q_def)
    also have "\<dots> < level_offset (Suc l)" using \<open>q < _\<close> l by (simp add: level_offset_Suc)
    also have "\<dots> \<le> level_offset 15" using l by (intro level_offset_mono) auto
    finally have "unat n < 65534" by (simp add: level_offset_def)
    then show ?thesis by auto
  qed
  ultimately show ?thesis by simp
qed

lemma root_in_path: "unat ix < 2 ^ 15 \<Longrightarrow> 65534 \<in> path_nodes ix"
  unfolding path_nodes_def using root_node by (auto intro!: exI [of _ 15])

lemma insert_over_parent:
  assumes "unat ix < 2 ^ 15" "unat jx = 2 ^ 15 + unat ix div 2"
  shows "tree_root (tree_insert B ix h (tree_insert B jx u t)) = tree_root (tree_insert B ix h t)"
  unfolding tree_root_eq
proof (rule tree_insert_agree)
  show "get_hash (tree_insert B jx u t) n = get_hash t n" if "n \<in> sibling_nodes ix" for n
    using sibling_nodes_avoid [OF assms(1) that] parent_path [OF assms] by (intro tree_insert_other) auto
  show "get_hash (tree_insert B jx u t) 65534 = get_hash t 65534 \<or> 65534 \<in> path_nodes ix"
    using root_in_path [OF assms(1)] ..
qed

end
