(* ===== verification/State_Ops.thy ===== *)
theory State_Ops
  imports Ledger Merkle_Spec
begin

text \<open>
  \<open>impl StateOps for State\<close> in \<open>merkle.rs\<close>: the methods on the Merkle state, the proof that they
  keep the contract of \<open>StateOps\<close>, and with it the properties of a batch executed on that state.
\<close>

definition merkle_ops :: "hasher \<Rightarrow> state state_ops" where
  "merkle_ops B =
     \<lparr>so_known_tokens_contains = known_tokens_contains,
      so_known_tokens_push = known_tokens_push,
      so_get_balance = (\<lambda>account token_id s. (get_balance B account token_id s, s)),
      so_set_balance = set_balance B,
      so_root = (\<lambda>s. (get_root B s, s))\<rparr>"

definition tokens_of :: "state \<Rightarrow> token_id set" where
  "tokens_of s = set (token_ids (known_tokens s))"

definition balance_of :: "hasher \<Rightarrow> state \<Rightarrow> account_id \<Rightarrow> token_id \<Rightarrow> u64 option" where
  "balance_of B s a t = get_balance B a t s"

section \<open>The contract\<close>

lemma set_balance_Inr:
  "set_balance B a t v s = Inr s' \<longleftrightarrow>
     fst (st_set B (balance_key t a) v (balances s)) \<and>
     s' = s\<lparr>balances := snd (st_set B (balance_key t a) v (balances s))\<rparr>"
  by (auto simp: set_balance_def Let_def case_prod_unfold)

lemma set_balance_bal:
  assumes "set_balance B a t v s = Inr s'" "is_bytes 32 a" "is_bytes 32 b"
  shows "balance_of B s' b u = (if b = a \<and> u = t then Some v else balance_of B s b u)"
  using assms st_get_set [of B "balance_key t a" v "balances s" "balance_key u b"]
  by (auto simp: set_balance_Inr balance_of_def get_balance_def is_bytes_def)

interpretation merkle: state_ops_laws "merkle_ops B" "\<lambda>_. True" "\<lambda>a _. is_bytes 32 a" tokens_of
    "balance_of B" for B
proof unfold_locales
  show "balance_of B s' b u = (if b = a \<and> u = t then Some v else balance_of B s b u)"
    if "is_bytes 32 a" "so_set_balance (merkle_ops B) a t v s = Inr s'" "is_bytes 32 b" for s a t v s' b u
    using set_balance_bal that by (simp add: merkle_ops_def)
qed (auto simp: merkle_ops_def tokens_of_def balance_of_def fun_eq_iff known_tokens_contains_def
    token_contains_iff known_tokens_push_def set_push_token get_balance_def set_balance_Inr)

text \<open>
  The state on a set of keys with distinct leaf indices: no collision can occur, the tree is the
  reference tree of the entries, and every key in use is in the set.
\<close>

definition merkle_inv :: "hasher \<Rightarrow> bytes set \<Rightarrow> state \<Rightarrow> bool" where
  "merkle_inv B K s \<longleftrightarrow>
     inj_on (tree_index_from_key B) K \<and> (\<forall>k \<in> K. leaf_key B k) \<and> store_ok B (balances s) \<and>
     (\<forall>ix kv. bt_get (key_values (balances s)) ix = Some kv \<longrightarrow> kv_key kv \<in> K)"

lemma merkle_inv_entry:
  assumes "merkle_inv B K s" "k \<in> K" "bt_get (key_values (balances s)) (tree_index_from_key B k) = Some kv"
  shows "kv_key kv = k"
proof -
  have "kv_key kv \<in> K" "tree_index_from_key B (kv_key kv) = tree_index_from_key B k"
    using assms unfolding merkle_inv_def store_ok_def by blast+
  then show ?thesis using assms(1,2) unfolding merkle_inv_def by (blast dest: inj_onD)
qed

lemma merkle_inv_set_ok:
  "merkle_inv B K s \<Longrightarrow> k \<in> K \<Longrightarrow> fst (st_set B k v (balances s))"
  unfolding st_set_ok_iff using merkle_inv_entry by (auto split: option.split)

lemma merkle_inv_set:
  assumes "merkle_inv B K s" "k \<in> K"
  shows "merkle_inv B K (s\<lparr>balances := snd (st_set B k v (balances s))\<rparr>)"
proof -
  note ok = merkle_inv_set_ok [OF assms, of v]
  show ?thesis
    using assms store_ok_set [of B "balances s" k v]
    by (auto simp: merkle_inv_def st_set_True [OF ok] split: if_splits)
qed

interpretation merkle_total: state_ops_total "merkle_ops B" "merkle_inv B K"
    "\<lambda>a t. is_bytes 32 a \<and> balance_key t a \<in> K" tokens_of "balance_of B" for B K
proof unfold_locales
  show "balance_of B s' b u = (if b = a \<and> u = t then Some v else balance_of B s b u)"
    if "is_bytes 32 a \<and> balance_key t a \<in> K" "so_set_balance (merkle_ops B) a t v s = Inr s'"
      "is_bytes 32 b \<and> balance_key u b \<in> K" for s a t v s' b u
    using set_balance_bal that by (simp add: merkle_ops_def)
  show "\<exists>s'. so_set_balance (merkle_ops B) a t v s = Inr s'"
    if "merkle_inv B K s" "is_bytes 32 a \<and> balance_key t a \<in> K" for s a t v
    using that merkle_inv_set_ok by (simp add: merkle_ops_def set_balance_Inr)
  show "merkle_inv B K s'"
    if "merkle_inv B K s" "is_bytes 32 a \<and> balance_key t a \<in> K"
      "so_set_balance (merkle_ops B) a t v s = Inr s'" for s a t v s'
    using that merkle_inv_set by (simp add: merkle_ops_def set_balance_Inr)
qed (auto simp: merkle_ops_def tokens_of_def balance_of_def fun_eq_iff known_tokens_contains_def
    token_contains_iff known_tokens_push_def set_push_token get_balance_def set_balance_Inr
    merkle_inv_def)

end
