(* ===== verification/Transition_Props.thy ===== *)
theory Transition_Props
  imports State_Ops
begin

text \<open>
  The properties of a batch: what verification accepts, what execution does to the supply of a
  token, when it cannot panic, and what netting pairs of accounts computes, inside and outside
  the range of an \<open>i64\<close>.
\<close>

definition account_slot :: "account_id \<Rightarrow> token_id \<Rightarrow> bool" where
  "account_slot a t \<longleftrightarrow> is_bytes 32 a"

definition state_supply :: "hasher \<Rightarrow> state \<Rightarrow> token_id \<Rightarrow> nat" where
  "state_supply B s t = token_supply account_slot (balance_of B s) t"

definition state_solvent :: "hasher \<Rightarrow> state \<Rightarrow> bool" where
  "state_solvent B s \<longleftrightarrow> solvent account_slot (tokens_of s) (balance_of B s)"

lemma account_slot_eq: "account_slot = (\<lambda>a _. is_bytes 32 a)"
  by (simp add: fun_eq_iff account_slot_def)

text \<open>An operation signed by the party that may order it, with parameters that make sense.\<close>

definition authorised :: "crypto \<Rightarrow> bytes \<Rightarrow> signed_operation \<Rightarrow> bool" where
  "authorised C admin_key op =
     (case operation op of
        Mint to t a \<Rightarrow> verify_signature C (operation op) (signature op) admin_key = Inr () \<and> a \<noteq> 0
      | Transfer from to t a \<Rightarrow>
          (case vk_try_from C from of
             None \<Rightarrow> False
           | Some key \<Rightarrow> verify_signature C (operation op) (signature op) key = Inr ()) \<and>
          a \<noteq> 0 \<and> from \<noteq> to)"

lemma not_isl_unit: "\<not> isl (r :: 'e + unit) \<longleftrightarrow> r = Inr ()"
  by (cases r) auto

lemma verify_slots:
  "verify_operations C ops = Inr True \<Longrightarrow> \<forall>op \<in> set ops. wf_operation (operation op) \<Longrightarrow>
     \<forall>op \<in> set ops. op_slots account_slot op"
proof (induction ops)
  case (Cons op ops)
  then show ?case
    by (cases "operation op") (auto simp: account_slot_def split: option.splits if_splits)
qed simp

lemma empty_state_supply [simp]: "state_supply B empty_state t = 0"
  by (simp add: state_supply_def token_supply_def balance_of_def get_balance_def st_get_eq
      empty_state_def empty_state_tree_def)

lemma empty_state_solvent [simp]: "state_solvent B empty_state"
  using empty_state_supply unfolding state_supply_def by (simp add: state_solvent_def solvent_def)

lemma empty_state_inv [simp]:
  "merkle_inv B K empty_state \<longleftrightarrow> inj_on (tree_index_from_key B) K \<and> (\<forall>k \<in> K. leaf_key B k)"
  by (auto simp: merkle_inv_def empty_state_def store_ok_empty) (simp_all add: empty_state_tree_def)

lemma demo_balance_index: "tree_index_from_key demo_hash (balance_key t (demo_account n)) = ucast n"
proof -
  have "balance_key t (demo_account n) = (PREFIX_BALANCE @ to_le_bytes 4 t @ zero_bytes 30) @ [0, n]"
    by (simp add: balance_key_layout demo_account_def zero_bytes_def replicate_append_same
        flip: replicate_Suc)
  then show ?thesis by (simp only: demo_tree_index) simp
qed

definition demo_keys :: "bytes set" where
  "demo_keys = {balance_key 1 (demo_account 1), balance_key 1 (demo_account 2)}"

lemma demo_keys_ok: "merkle_inv demo_hash demo_keys empty_state"
  by (auto simp: demo_keys_def inj_on_def leaf_key_def demo_balance_index)

definition demo_batch :: "signed_operation list" where
  "demo_batch =
     [demo_signed (admin demo_crypto) (Mint (demo_account 1) 1 100),
      demo_signed (demo_account 1) (Transfer (demo_account 1) (demo_account 2) 1 30)]"

lemma demo_batch_verified: "verify_operations demo_crypto demo_batch = Inr True"
  by (simp add: demo_batch_def)

lemma demo_batch_runs:
  "\<exists>s'. state_transition (merkle_ops demo_hash) demo_batch empty_state = Inr s'"
  using merkle_total.transition_total [OF demo_keys_ok, of demo_batch]
  by (auto simp: demo_batch_def demo_keys_def)

lemma verify_operations_all:
  assumes "vk_try_from C (admin C) = Some admin_key"
  shows "verify_operations C ops = Inr (list_all (authorised C admin_key) ops)"
proof (induction ops)
  case (Cons op ops)
  have ok: "isl (verify_signature C (operation op) (signature op) k) \<longleftrightarrow>
      verify_signature C (operation op) (signature op) k \<noteq> Inr ()" for k
    using not_isl_unit by blast
  show ?case
  proof (cases "operation op")
    case (Mint to t a)
    then show ?thesis using Cons assms ok by (simp add: authorised_def)
  next
    case (Transfer "from" to t a)
    then show ?thesis using Cons ok by (cases "vk_try_from C from") (simp_all add: authorised_def)
  qed
qed simp

text \<open>A transfer alone in its batch, of an amount an \<open>i64\<close> holds, is executed as ordered.\<close>

lemma single_transfer:
  assumes "operation op = Transfer from to t a" "from \<noteq> to" "0 < unat a" "unat a < 2 ^ 63"
  shows "state_transition M [op] s = process_transfer M from to t a s"
proof -
  have pos: "sint a > 0" using assms(3,4) sint_u64_small [OF assms(4)] by (simp del: uint_nat of_nat_unat)
  have "unat (- a) = 2 ^ 64 - unat a" using assms(3) by (intro unat_uminus_u64) auto
  then have "\<not> unat (- a) < 2 ^ 63" using assms(4) by simp
  then have neg: "sint (- a) < 0"
    using unsigned_less [of "- a", where 'a = int] by (simp add: sint_u64 del: unsigned_less)
  have bind: "bind_res r (fold_res (settle_transfer M) []) = r" for r by (cases r) simp_all
  show ?thesis
    using pos neg assms(1)
    by (cases "from < to")
      (simp_all add: state_transition_def transition_step_def stage_transfer_def canonical_transfer_def
        bt_upsert_def settle_transfer_def Let_def bind)
qed

section \<open>Verification\<close>

text \<open>
  C19. A batch passes verification exactly when every operation in it is authorised: the admin
  signed each mint, the sender each transfer, no amount is zero and no transfer is to the
  sender. Verification does not panic while the admin key parses.
\<close>

theorem verify_operations_iff:
  assumes "vk_try_from C (admin C) = Some admin_key"
  shows "verify_operations C ops = Inr (list_all (authorised C admin_key) ops)"
  using assms by (rule verify_operations_all)

theorem verify_operations_iff_witness:
  "verify_operations demo_crypto demo_batch
     = Inr (list_all (authorised demo_crypto (admin demo_crypto)) demo_batch)"
  using verify_operations_iff [of demo_crypto "admin demo_crypto" demo_batch] by simp

section \<open>Supply\<close>

text \<open>
  C7. A verified batch creates money only by minting new tokens: the supply of every token known
  before is unchanged, a token minted for the first time has the amount of its first mint, and
  the known tokens grow by the minted ones.
\<close>

theorem verified_batch_supply:
  assumes "verify_operations C ops = Inr True" "\<forall>op \<in> set ops. wf_operation (operation op)"
    and "state_transition (merkle_ops B) ops s = Inr s'" "state_solvent B s"
  shows "tokens_of s' = tokens_of s \<union> mint_tokens ops \<and> state_solvent B s' \<and>
    (\<forall>t. state_supply B s' t = (if t \<in> tokens_of s then state_supply B s t else minted t ops))"
  using merkle.transition_supply [OF assms(3)] assms(4) verify_slots [OF assms(1,2)]
  unfolding state_supply_def state_solvent_def account_slot_eq by blast

theorem verified_batch_supply_witness:
  "\<exists>s'. state_transition (merkle_ops demo_hash) demo_batch empty_state = Inr s' \<and>
     state_supply demo_hash s' 1 = 100 \<and> state_supply demo_hash s' 2 = 0"
proof -
  obtain s' where s': "state_transition (merkle_ops demo_hash) demo_batch empty_state = Inr s'"
    using demo_batch_runs by blast
  have wf: "\<forall>op \<in> set demo_batch. wf_operation (operation op)" by (simp add: demo_batch_def)
  have "minted 1 demo_batch = 100" "minted 2 demo_batch = 0" by (simp_all add: demo_batch_def)
  moreover have "tokens_of empty_state = {}" by (simp add: tokens_of_def empty_state_def)
  ultimately show ?thesis
    using verified_batch_supply [OF demo_batch_verified wf s' empty_state_solvent] s' by auto
qed

section \<open>Completion\<close>

text \<open>
  C22. A batch runs to its end, without the panic of a key collision, on keys with distinct leaf
  indices; the state after it is again on those keys, and its balances root is the reference
  Merkle root of its entries.
\<close>

theorem batch_completes:
  assumes "merkle_inv B K s"
    and "\<forall>op \<in> set ops. op_slots (\<lambda>a t. is_bytes 32 a \<and> balance_key t a \<in> K) op"
  shows "\<exists>s'. state_transition (merkle_ops B) ops s = Inr s' \<and> merkle_inv B K s' \<and>
    st_root (balances s') = ref_root B (leaf_hash B (key_values (balances s')))"
  using merkle_total.transition_total [OF assms] by (auto simp: merkle_inv_def intro: st_root_ref)

theorem batch_completes_witness:
  "\<exists>s'. state_transition (merkle_ops demo_hash) demo_batch empty_state = Inr s' \<and>
     merkle_inv demo_hash demo_keys s'"
  using batch_completes [OF demo_keys_ok, of demo_batch] by (auto simp: demo_batch_def demo_keys_def)

section \<open>Netting\<close>

text \<open>
  C23. While the transfers of a batch add up to less than \<open>2 ^ 63\<close>, the amount staged for a pair of
  accounts and a token is the exact signed sum of what one owes the other.
\<close>

theorem staged_amount_exact:
  assumes "fold_res (transition_step M) ops (s, []) = Inr (s', staged)"
    and "volume ops < 2 ^ 63" "x < y"
  shows "sint (amount_of (bt_get staged (t, (x, y)))) = net_owed t x y ops"
  using staged_net_exact [OF assms(2,3)] transition_loop_staged [OF assms(1)] by simp

theorem staged_amount_exact_witness:
  "\<exists>s' staged. fold_res (transition_step (merkle_ops demo_hash))
      [demo_signed (demo_account 1) (Transfer (demo_account 1) (demo_account 2) 1 30),
       demo_signed (demo_account 2) (Transfer (demo_account 2) (demo_account 1) 1 50)]
      (empty_state, []) = Inr (s', staged) \<and>
     sint (amount_of (bt_get staged (1, (demo_account 1, demo_account 2)))) = - 20"
proof -
  let ?ops = "[demo_signed (demo_account 1) (Transfer (demo_account 1) (demo_account 2) 1 30),
       demo_signed (demo_account 2) (Transfer (demo_account 2) (demo_account 1) 1 50)]"
  obtain s' staged where run: "fold_res (transition_step (merkle_ops demo_hash)) ?ops (empty_state, [])
      = Inr (s', staged)"
    by (simp add: transition_step_def)
  have "demo_account 1 < demo_account 2"
    by (simp add: demo_account_def zero_bytes_def list_less_def lexord_append_leftI)
  then have "sint (amount_of (bt_get staged (1, (demo_account 1, demo_account 2)))) = - 20"
    using staged_amount_exact [OF run] by simp
  then show ?thesis using run by blast
qed

text \<open>
  C31. An amount above \<open>2 ^ 63\<close> passes verification with the sender's signature alone and is
  settled backwards: the batch debits the receiver and credits the sender with \<open>2 ^ 64\<close> minus
  the amount.
\<close>

theorem oversized_transfer_reversed:
  assumes "from \<noteq> to" "2 ^ 63 < unat a"
    and "vk_try_from C from = Some key" "verify_signature C (Transfer from to t a) sig key = Inr ()"
  shows "verify_operations C [\<lparr>operation = Transfer from to t a, signature = sig\<rparr>] = Inr True \<and>
    state_transition M [\<lparr>operation = Transfer from to t a, signature = sig\<rparr>] s
      = process_transfer M to from t (- a) s"
proof
  have nz: "a \<noteq> 0" using assms(2) by auto
  then show "verify_operations C [\<lparr>operation = Transfer from to t a, signature = sig\<rparr>] = Inr True"
    using assms by simp
  have "unat (- a) < 2 ^ 63" using assms(2) nz by (simp add: unat_uminus_u64)
  moreover have "0 < unat (- a)" using nz by (simp only: unat_gt_0) simp
  ultimately have pos: "sint (- a) > 0" using sint_u64_small [of "- a"] by (simp del: uint_nat of_nat_unat)
  have "\<not> unat a < 2 ^ 63" using assms(2) by simp
  then have neg: "sint a < 0"
    using unsigned_less [of a, where 'a = int] by (simp add: sint_u64 del: unsigned_less)
  show "state_transition M [\<lparr>operation = Transfer from to t a, signature = sig\<rparr>] s
      = process_transfer M to from t (- a) s"
    using pos neg
    by (simp add: state_transition_def transition_step_def stage_transfer_def canonical_transfer_def
        bt_upsert_def settle_transfer_def Let_def bind_res_def split: sum.split)
qed

theorem oversized_transfer_reversed_witness:
  "\<exists>sig. verify_operations demo_crypto
      [\<lparr>operation = Transfer (demo_account 1) (demo_account 2) 1 (- 5), signature = sig\<rparr>] = Inr True \<and>
    state_transition (merkle_ops demo_hash)
      [\<lparr>operation = Transfer (demo_account 1) (demo_account 2) 1 (- 5), signature = sig\<rparr>] empty_state
      = process_transfer (merkle_ops demo_hash) (demo_account 2) (demo_account 1) 1 5 empty_state"
proof -
  let ?op = "Transfer (demo_account 1) (demo_account 2) 1 (- 5)"
  have "2 ^ 63 < unat (- 5 :: u64)" by (simp add: unat_uminus_u64)
  then have "verify_operations demo_crypto [\<lparr>operation = ?op, signature = signature (demo_signed (demo_account 1) ?op)\<rparr>]
        = Inr True \<and>
      state_transition (merkle_ops demo_hash)
        [\<lparr>operation = ?op, signature = signature (demo_signed (demo_account 1) ?op)\<rparr>] empty_state
        = process_transfer (merkle_ops demo_hash) (demo_account 2) (demo_account 1) 1 (- (- 5)) empty_state"
    by (intro oversized_transfer_reversed [where key = "demo_account 1"]) simp_all
  then show ?thesis by (metis minus_minus)
qed

end
