(* ===== verification/Host.thy ===== *)
theory Host
  imports Common
begin

text \<open>
  The JAM host as the services see it (\<open>jam_pvm_common\<close>, \<open>jam_types\<close>): the storage of a service
  during accumulation, the data a refinement can read and export, and the items an accumulation
  receives. The host is not part of this repository: its calls are the fields of the records
  \<open>storage_api\<close> and \<open>refine_host\<close>, arguments of the definitions that use them, and the locales
  state the documented behaviour of storage that the proofs rely on. \<open>map_storage\<close> is a concrete
  storage with these laws, for witnesses.
\<close>

section \<open>Errors and items\<close>

datatype api_error = StorageFull | OtherApiError

record work_item_record =
  wir_package :: hash
  wir_result :: "string + bytes" \<comment> \<open>the output of refinement, or why it has none\<close>

record transfer_record =
  tr_source :: u32
  tr_amount :: u64
  tr_memo :: bytes

datatype accumulate_item = WorkItem work_item_record | TransferItem transfer_record

section \<open>Refinement\<close>

record refine_host =
  extrinsic :: "nat \<Rightarrow> bytes option"
  import_segment :: "nat \<Rightarrow> bytes option"
  export_slice :: "bytes \<Rightarrow> api_error + nat"

section \<open>Storage\<close>

record 's storage_api =
  get_storage :: "bytes \<Rightarrow> 's \<Rightarrow> bytes option"
  set_storage :: "bytes \<Rightarrow> bytes \<Rightarrow> 's \<Rightarrow> api_error + 's"
  checkpoint :: "'s \<Rightarrow> 's"

text \<open>\<open>get(key)\<close> decodes what is stored under the key.\<close>

definition api_get :: "'s storage_api \<Rightarrow> (bytes \<Rightarrow> 'v option) \<Rightarrow> bytes \<Rightarrow> 's \<Rightarrow> 'v option" where
  "api_get H decode key s = Option.bind (get_storage H key s) decode"

text \<open>\<open>let _ = set_storage(key, value)\<close>: a failed write is ignored.\<close>

definition set_ignoring :: "'s storage_api \<Rightarrow> bytes \<Rightarrow> bytes \<Rightarrow> 's \<Rightarrow> 's" where
  "set_ignoring H key value s = (case set_storage H key value s of Inl _ \<Rightarrow> s | Inr s' \<Rightarrow> s')"

locale storage_laws =
  fixes H :: "'s storage_api"
  assumes get_set: "set_storage H k v s = Inr s' \<Longrightarrow>
      get_storage H k' s' = (if k' = k then Some v else get_storage H k' s)"
    and get_checkpoint: "get_storage H k (checkpoint H s) = get_storage H k s"
begin

lemma get_ignoring_other: "k' \<noteq> k \<Longrightarrow> get_storage H k' (set_ignoring H k v s) = get_storage H k' s"
  by (auto simp: set_ignoring_def get_set split: sum.split)

lemma api_get_other: "k' \<noteq> k \<Longrightarrow> api_get H d k' (set_ignoring H k v s) = api_get H d k' s"
  by (simp add: api_get_def get_ignoring_other)

lemma api_get_checkpoint: "api_get H d k (checkpoint H s) = api_get H d k s"
  by (simp add: api_get_def get_checkpoint)

lemma api_get_set: "set_storage H k v s = Inr s' \<Longrightarrow> d v = Some x \<Longrightarrow> api_get H d k s' = Some x"
  by (simp add: api_get_def get_set)

end

locale storage_total = storage_laws +
  assumes set_total: "\<exists>s'. set_storage H k v s = Inr s'"
begin

lemma get_ignoring: "get_storage H k' (set_ignoring H k v s) = (if k' = k then Some v else get_storage H k' s)"
proof -
  obtain s' where s': "set_storage H k v s = Inr s'" using set_total by blast
  show ?thesis using get_set [OF s'] by (simp add: set_ignoring_def s')
qed

lemma api_get_ignoring: "d v = Some x \<Longrightarrow> api_get H d k (set_ignoring H k v s) = Some x"
  by (simp add: api_get_def get_ignoring)

end

section \<open>A concrete storage\<close>

text \<open>
  Two maps, the live one and the one of the last checkpoint. A write that needs a new entry fails
  unless \<open>room\<close> says that the key has one.
\<close>

record map_store =
  live :: "bytes \<rightharpoonup> bytes"
  saved :: "bytes \<rightharpoonup> bytes"

definition map_storage :: "(bytes \<Rightarrow> bool) \<Rightarrow> map_store storage_api" where
  "map_storage room =
     \<lparr>get_storage = (\<lambda>k s. live s k),
      set_storage = (\<lambda>k v s. if live s k = None \<and> \<not> room k then Inl StorageFull
                              else Inr (s\<lparr>live := (live s)(k \<mapsto> v)\<rparr>)),
      checkpoint = (\<lambda>s. s\<lparr>saved := live s\<rparr>)\<rparr>"

definition empty_store :: map_store where
  "empty_store = \<lparr>live = Map.empty, saved = Map.empty\<rparr>"

interpretation map_laws: storage_laws "map_storage room" for room
  by unfold_locales (auto simp: map_storage_def split: if_splits)

interpretation map_total: storage_total "map_storage (\<lambda>_. True)"
  by unfold_locales (auto simp: map_storage_def)

end
