(* ===== verification/Accumulation.thy ===== *)
theory Accumulation
  imports Transition Host
begin

text \<open>
  Accumulation of the second service (\<open>token-ledger-service-v2\<close>, \<open>src/accumulation.rs\<close>): the
  chain keeps one root under the key \<open>client_root\<close>, and a round moves it along the transitions its
  work items report, if they form a chain from it. The codec of \<open>Operation\<close> and the storage are
  parameters; \<open>package_hash\<close> only labels log lines and is left out.
\<close>

section \<open>Data\<close>

record acc_operation =
  op_delivery :: delivery_mode
  op_previous_root :: hash
  op_new_root :: hash
  op_exported_segments :: "hash list"

text \<open>The field \<open>previous_state_root\<close> of \<open>PendingAccumulateResult\<close>: \<open>Err(())\<close> is \<open>Inl ()\<close>.\<close>

type_synonym pending = "unit + hash option"

record root_codec =
  enc_root :: "hash \<Rightarrow> bytes"
  dec_root :: "bytes \<Rightarrow> hash option"

definition CLIENT_ROOT :: bytes where
  "CLIENT_ROOT = [0x63, 0x6c, 0x69, 0x65, 0x6e, 0x74, 0x5f, 0x72, 0x6f, 0x6f, 0x74]"
    \<comment> \<open>\<open>"client_root"\<close>\<close>

text \<open>\<open>get("client_root").unwrap_or_default()\<close>.\<close>

definition client_root :: "'s storage_api \<Rightarrow> root_codec \<Rightarrow> 's \<Rightarrow> hash" where
  "client_root H RC s = (case api_get H (dec_root RC) CLIENT_ROOT s of Some r \<Rightarrow> r | None \<Rightarrow> zero_bytes 32)"

section \<open>The items of a round\<close>

definition on_work_item_record_single_step ::
    "'s storage_api \<Rightarrow> root_codec \<Rightarrow> 's \<Rightarrow> acc_operation \<Rightarrow> pending \<Rightarrow> pending" where
  "on_work_item_record_single_step H RC s op acc =
     (if isl acc then acc
      else
        let current_root = (case acc of Inr (Some r) \<Rightarrow> r | _ \<Rightarrow> client_root H RC s)
        in if op_previous_root op = current_root then Inr (Some (op_new_root op)) else Inl ())"

definition on_work_item_record ::
    "'s storage_api \<Rightarrow> root_codec \<Rightarrow> (bytes \<Rightarrow> acc_operation option) \<Rightarrow> 's \<Rightarrow>
       work_item_record \<Rightarrow> pending \<Rightarrow> pending" where
  "on_work_item_record H RC decode s record acc =
     (case wir_result record of
        Inl e \<Rightarrow> acc
      | Inr output \<Rightarrow>
          (case decode output of
             None \<Rightarrow> acc
           | Some op \<Rightarrow> on_work_item_record_single_step H RC s op acc))"

definition on_accumulate_item ::
    "'s storage_api \<Rightarrow> root_codec \<Rightarrow> (bytes \<Rightarrow> acc_operation option) \<Rightarrow> 's \<Rightarrow>
       accumulate_item \<Rightarrow> pending \<Rightarrow> pending" where
  "on_accumulate_item H RC decode s item acc =
     (case item of
        WorkItem r \<Rightarrow> on_work_item_record H RC decode s r acc
      | TransferItem t \<Rightarrow> acc)"

definition on_accumulate_items ::
    "'s storage_api \<Rightarrow> root_codec \<Rightarrow> (bytes \<Rightarrow> acc_operation option) \<Rightarrow>
       accumulate_item list \<Rightarrow> 's \<Rightarrow> panic + 's" where
  "on_accumulate_items H RC decode items s =
     (let items_result = fold (on_accumulate_item H RC decode s) items (Inr None);
          s = checkpoint H s
      in case items_result of
           Inr (Some root) \<Rightarrow>
             let current_root = client_root H RC s
             in if current_root \<noteq> root then
                  (case set_storage H CLIENT_ROOT (enc_root RC root) s of
                     Inl e \<Rightarrow> Inl UnwrapFailed
                   | Inr s' \<Rightarrow> Inr s')
                else Inr s
         | Inr None \<Rightarrow> Inr s
         | Inl () \<Rightarrow> Inr s)"

section \<open>The transitions a round reports\<close>

text \<open>The operations that reach the fold: of work items that succeeded with a decodable output.\<close>

definition reported :: "(bytes \<Rightarrow> acc_operation option) \<Rightarrow> accumulate_item \<Rightarrow> acc_operation option" where
  "reported decode item =
     (case item of
        WorkItem r \<Rightarrow> (case wir_result r of Inl e \<Rightarrow> None | Inr output \<Rightarrow> decode output)
      | TransferItem t \<Rightarrow> None)"

definition reports :: "(bytes \<Rightarrow> acc_operation option) \<Rightarrow> accumulate_item list \<Rightarrow> acc_operation list" where
  "reports decode items = List.map_filter (reported decode) items"

text \<open>The root at the end of a chain of transitions from \<open>r\<close>, if they are one.\<close>

fun follow :: "hash \<Rightarrow> acc_operation list \<Rightarrow> hash option" where
  "follow r [] = Some r"
| "follow r (op # ops) = (if op_previous_root op = r then follow (op_new_root op) ops else None)"

lemma follow_append: "follow r (ops @ ops') = Option.bind (follow r ops) (\<lambda>r'. follow r' ops')"
  by (induction ops arbitrary: r) auto

lemma single_step_simps:
  "on_work_item_record_single_step H RC s op (Inl u) = Inl u"
  "on_work_item_record_single_step H RC s op (Inr None) =
     (if op_previous_root op = client_root H RC s then Inr (Some (op_new_root op)) else Inl ())"
  "on_work_item_record_single_step H RC s op (Inr (Some r)) =
     (if op_previous_root op = r then Inr (Some (op_new_root op)) else Inl ())"
  by (simp_all add: on_work_item_record_single_step_def Let_def)

lemma on_accumulate_item_reported:
  "on_accumulate_item H RC decode s item acc =
     (case reported decode item of None \<Rightarrow> acc | Some op \<Rightarrow> on_work_item_record_single_step H RC s op acc)"
  by (auto simp: on_accumulate_item_def reported_def on_work_item_record_def
      split: accumulate_item.split sum.split option.split)

lemma items_fold_reports:
  "fold (on_accumulate_item H RC decode s) items acc
     = fold (on_work_item_record_single_step H RC s) (reports decode items) acc"
  by (induction items arbitrary: acc)
    (auto simp: reports_def map_filter_simps on_accumulate_item_reported split: option.split)

lemma steps_failed: "fold (on_work_item_record_single_step H RC s) ops (Inl u) = Inl u"
  by (induction ops) (simp_all add: single_step_simps)

lemma steps_from:
  "fold (on_work_item_record_single_step H RC s) ops (Inr (Some r)) =
     (case follow r ops of Some r' \<Rightarrow> Inr (Some r') | None \<Rightarrow> Inl ())"
  by (induction ops arbitrary: r) (auto simp: single_step_simps steps_failed)

lemma steps_follow:
  "fold (on_work_item_record_single_step H RC s) ops (Inr None) =
     (if ops = [] then Inr None
      else case follow (client_root H RC s) ops of Some r \<Rightarrow> Inr (Some r) | None \<Rightarrow> Inl ())"
  by (cases ops) (auto simp: single_step_simps steps_from steps_failed)

lemma client_root_checkpoint:
  "storage_laws H \<Longrightarrow> client_root H RC (checkpoint H s) = client_root H RC s"
  by (simp add: client_root_def storage_laws.api_get_checkpoint)

text \<open>A round in terms of its chain.\<close>

lemma round_eq:
  assumes "storage_laws H"
  shows "on_accumulate_items H RC decode items s =
    (case follow (client_root H RC s) (reports decode items) of
       None \<Rightarrow> Inr (checkpoint H s)
     | Some r \<Rightarrow>
         if client_root H RC s = r then Inr (checkpoint H s)
         else case set_storage H CLIENT_ROOT (enc_root RC r) (checkpoint H s) of
                Inl e \<Rightarrow> Inl UnwrapFailed | Inr s' \<Rightarrow> Inr s')"
proof (cases "reports decode items = []")
  case True
  then show ?thesis by (simp add: on_accumulate_items_def items_fold_reports)
next
  case False
  then show ?thesis
    by (simp add: on_accumulate_items_def items_fold_reports steps_follow Let_def
        client_root_checkpoint [OF assms] old.unit.case split: option.split unit.split)
qed

text \<open>The codec of \<open>[u8; 32]\<close>, and operations whose roots are such arrays.\<close>

definition root_codec_ok :: "root_codec \<Rightarrow> bool" where
  "root_codec_ok RC \<longleftrightarrow> (\<forall>r. length r = 32 \<longrightarrow> dec_root RC (enc_root RC r) = Some r)"

definition decodes_roots :: "(bytes \<Rightarrow> acc_operation option) \<Rightarrow> bool" where
  "decodes_roots decode \<longleftrightarrow> (\<forall>b op. decode b = Some op \<longrightarrow> length (op_new_root op) = 32)"

lemma follow_end: "follow r ops = Some r' \<Longrightarrow> r' = r \<or> r' \<in> op_new_root ` set ops"
  by (induction ops arbitrary: r) (auto split: if_splits)

lemma reports_decoded: "op \<in> set (reports decode items) \<Longrightarrow> \<exists>b. decode b = Some op"
  by (induction items)
    (auto simp: reports_def map_filter_simps reported_def split: accumulate_item.splits sum.splits option.splits)

lemma round_moves:
  assumes "storage_laws H" "root_codec_ok RC" "decodes_roots decode"
    and run: "on_accumulate_items H RC decode items s = Inr s'"
  shows "client_root H RC s' =
      (case follow (client_root H RC s) (reports decode items) of
         Some r \<Rightarrow> r | None \<Rightarrow> client_root H RC s) \<and>
    (\<forall>k. k \<noteq> CLIENT_ROOT \<longrightarrow> get_storage H k s' = get_storage H k s)"
proof -
  let ?s = "checkpoint H s"
  have cp: "get_storage H k ?s = get_storage H k s" for k
    by (rule storage_laws.get_checkpoint [OF assms(1)])
  consider "s' = ?s" "client_root H RC s = (case follow (client_root H RC s) (reports decode items) of
        Some r \<Rightarrow> r | None \<Rightarrow> client_root H RC s)"
    | r where "follow (client_root H RC s) (reports decode items) = Some r" "r \<noteq> client_root H RC s"
        "set_storage H CLIENT_ROOT (enc_root RC r) ?s = Inr s'"
    using run unfolding round_eq [OF assms(1)] by (auto split: option.splits if_splits sum.splits)
  then show ?thesis
  proof cases
    case 1
    then show ?thesis using cp client_root_checkpoint [OF assms(1)] by simp
  next
    case (2 r)
    have "length r = 32"
      using follow_end [OF 2(1)] 2(2) assms(3) reports_decoded by (fastforce simp: decodes_roots_def)
    then have "client_root H RC s' = r"
      using storage_laws.api_get_set [OF assms(1) 2(3), of "dec_root RC"] assms(2)
      by (simp add: client_root_def root_codec_ok_def)
    then show ?thesis using 2 cp storage_laws.get_set [OF assms(1) 2(3)] by simp
  qed
qed

lemma round_returns:
  assumes "storage_total H"
  shows "\<exists>s'. on_accumulate_items H RC decode items s = Inr s'"
proof -
  have laws: "storage_laws H" using assms by (rule storage_total.axioms)
  have "set_storage H CLIENT_ROOT (enc_root RC r) (checkpoint H s) \<noteq> Inl e" for r e
    using storage_total.set_total [OF assms] by (metis sum.distinct(1))
  then have "\<not> isl (on_accumulate_items H RC decode items s)"
    unfolding round_eq [OF laws] by (simp split: option.split sum.split)
  then show ?thesis by (metis sum.collapse(2))
qed

definition demo_root_codec :: root_codec where
  "demo_root_codec = \<lparr>enc_root = (\<lambda>h. h), dec_root = Some\<rparr>"

lemma demo_root_codec_ok: "root_codec_ok demo_root_codec"
  by (simp add: root_codec_ok_def demo_root_codec_def)

section \<open>Properties\<close>

text \<open>
  C13. A round moves \<open>client_root\<close> to the end of its reported transitions if they form a chain from
  the current root, and leaves it as it is if they do not: one broken link drops them all. No
  other key changes.
\<close>

theorem accumulate_follows_chain:
  assumes "storage_laws H" "root_codec_ok RC" "decodes_roots decode"
    and "on_accumulate_items H RC decode items s = Inr s'"
  shows "client_root H RC s' =
      (case follow (client_root H RC s) (reports decode items) of
         Some r \<Rightarrow> r | None \<Rightarrow> client_root H RC s) \<and>
    (\<forall>k. k \<noteq> CLIENT_ROOT \<longrightarrow> get_storage H k s' = get_storage H k s)"
  by (rule round_moves [OF assms])

definition demo_move :: "hash \<Rightarrow> hash \<Rightarrow> acc_operation" where
  "demo_move r r' = \<lparr>op_delivery = Direct, op_previous_root = r, op_new_root = r', op_exported_segments = []\<rparr>"

definition demo_item :: "bytes \<Rightarrow> accumulate_item" where
  "demo_item out = WorkItem \<lparr>wir_package = zero_bytes 32, wir_result = Inr out\<rparr>"

text \<open>A decoder of two roots back to back.\<close>

definition demo_dec_operation :: "bytes \<Rightarrow> acc_operation option" where
  "demo_dec_operation b = (if length b = 64 then Some (demo_move (take 32 b) (drop 32 b)) else None)"

lemma demo_decodes_roots: "decodes_roots demo_dec_operation"
  by (simp add: decodes_roots_def demo_dec_operation_def demo_move_def split: if_splits)

theorem accumulate_follows_chain_witness:
  "\<exists>s'. on_accumulate_items (map_storage (\<lambda>_. True)) demo_root_codec demo_dec_operation
       [demo_item (zero_bytes 32 @ replicate 32 1), demo_item (replicate 32 1 @ replicate 32 2)] empty_store
       = Inr s' \<and>
     client_root (map_storage (\<lambda>_. True)) demo_root_codec s' = replicate 32 2"
proof -
  let ?H = "map_storage (\<lambda>_. True)"
  let ?items = "[demo_item (zero_bytes 32 @ replicate 32 1), demo_item (replicate 32 1 @ replicate 32 2)]"
  have start: "client_root ?H demo_root_codec empty_store = zero_bytes 32"
    by (simp add: client_root_def api_get_def map_storage_def empty_store_def)
  have follow: "follow (zero_bytes 32) (reports demo_dec_operation ?items) = Some (replicate 32 2)"
    by (simp add: reports_def map_filter_simps reported_def demo_item_def demo_dec_operation_def
        demo_move_def)
  obtain x where "set_storage ?H CLIENT_ROOT (enc_root demo_root_codec (replicate 32 2))
      (checkpoint ?H empty_store) = Inr x"
    using map_total.set_total by blast
  then obtain s' where run: "on_accumulate_items ?H demo_root_codec demo_dec_operation ?items empty_store = Inr s'"
    unfolding round_eq [OF map_laws.storage_laws_axioms] start follow by (simp add: zero_bytes_def)
  then show ?thesis
    using accumulate_follows_chain [OF map_laws.storage_laws_axioms demo_root_codec_ok demo_decodes_roots run]
      start follow by simp
qed

text \<open>A round panics exactly when its chain moves the root and the host refuses the one write.\<close>

lemma accumulate_panics_iff:
  assumes "storage_laws H"
  shows "on_accumulate_items H RC decode items s = Inl p \<longleftrightarrow>
    p = UnwrapFailed \<and>
    (\<exists>r. follow (client_root H RC s) (reports decode items) = Some r \<and> r \<noteq> client_root H RC s \<and>
         isl (set_storage H CLIENT_ROOT (enc_root RC r) (checkpoint H s)))"
  unfolding round_eq [OF assms] by (auto split: option.split sum.split)

section \<open>A concrete codec\<close>

text \<open>A codec of operations: the delivery mode, the two roots, and the segment hashes.\<close>

fun chunks :: "nat \<Rightarrow> bytes \<Rightarrow> hash list" where
  "chunks 0 b = []"
| "chunks (Suc n) b = take 32 b # chunks n (drop 32 b)"

definition demo_enc_acc :: "acc_operation \<Rightarrow> bytes" where
  "demo_enc_acc op =
     (case op_delivery op of Extrinsic \<Rightarrow> 0 | Direct \<Rightarrow> 1) # op_previous_root op @ op_new_root op @
       concat (op_exported_segments op)"

definition demo_dec_acc :: "bytes \<Rightarrow> acc_operation option" where
  "demo_dec_acc b =
     (if length b < 65 then None
      else Some \<lparr>op_delivery = (if hd b = 0 then Extrinsic else Direct), op_previous_root = take 32 (tl b),
             op_new_root = take 32 (drop 32 (tl b)),
             op_exported_segments = chunks ((length b - 65) div 32) (drop 64 (tl b))\<rparr>)"

lemma chunks_concat:
  "\<forall>h \<in> set hs. length h = 32 \<Longrightarrow> chunks (length (concat hs) div 32) (concat hs) = hs"
proof (induction hs)
  case (Cons h hs)
  have "(32 + n) div 32 = Suc (n div 32)" for n :: nat by simp
  then show ?case using Cons by simp
qed simp

lemma demo_dec_enc_acc:
  assumes "length (op_previous_root op) = 32" "length (op_new_root op) = 32"
    and "\<forall>h \<in> set (op_exported_segments op). length h = 32"
  shows "demo_dec_acc (demo_enc_acc op) = Some op"
  using assms chunks_concat [OF assms(3)]
  by (cases op) (simp add: demo_dec_acc_def demo_enc_acc_def split: delivery_mode.split)

lemma demo_acc_roots: "decodes_roots demo_dec_acc"
  by (auto simp: decodes_roots_def demo_dec_acc_def split: if_splits)

end
