(* ===== verification/Refinement.thy ===== *)
theory Refinement
  imports Transition_Props Accumulation
begin

text \<open>
  Refinement of the second service (\<open>token-ledger-service-v2\<close>, \<open>src/refinement.rs\<close>): decoding a
  payload, fetching the witness, loading the partial state, executing the batch now or exporting
  it for a later package. The codec is the record \<open>codec\<close>, the host calls \<open>refine_host\<close>. A run
  returns its result, the hashes of the segments it exported, and the slices it handed to
  \<open>export_slice\<close>, which is its effect on the host.
\<close>

section \<open>Data\<close>

record payload =
  pl_delivery :: delivery_mode
  pl_execution :: execution_mode
  pl_operations :: "signed_operation list"
  pl_witness :: "witness option"

record segment_data =
  seg_operations :: "signed_operation list"
  seg_witness :: witness

record codec =
  dec_payload :: "bytes \<Rightarrow> payload option"
  dec_witness :: "bytes \<Rightarrow> witness option"
  enc_segment :: "segment_data \<Rightarrow> bytes"
  dec_segment :: "bytes \<Rightarrow> segment_data option"
  enc_operation :: "acc_operation \<Rightarrow> bytes"

text \<open>Previous root, new root, number of operations, delivery mode.\<close>

type_synonym transition_output = "hash \<times> hash \<times> nat \<times> delivery_mode"

type_synonym refine_run = "panic + (transition_output option \<times> hash list \<times> bytes list)"

section \<open>The witness of a payload\<close>

definition deliver_witness ::
    "codec \<Rightarrow> refine_host \<Rightarrow> delivery_mode \<Rightarrow> witness option \<Rightarrow> panic + witness option" where
  "deliver_witness CD H delivery witness =
     (case delivery of
        Extrinsic \<Rightarrow>
          if witness \<noteq> None then Inl AssertFailed
          else (case extrinsic H 0 of
                  None \<Rightarrow> Inr None
                | Some extrinsic_data \<Rightarrow> Inr (dec_witness CD extrinsic_data))
      | Direct \<Rightarrow>
          (case witness of None \<Rightarrow> Inl AssertFailed | Some w \<Rightarrow> Inr (Some w)))"

section \<open>Exporting a batch\<close>

definition export_batch ::
    "crypto \<Rightarrow> codec \<Rightarrow> refine_host \<Rightarrow> payload \<Rightarrow> witness \<Rightarrow> hash \<Rightarrow> hash list \<Rightarrow> refine_run" where
  "export_batch C CD H p witness previous_root exported_segments =
     (let segment_slice = enc_segment CD \<lparr>seg_operations = pl_operations p, seg_witness = witness\<rparr>
      in case export_slice H segment_slice of
           Inr exported \<Rightarrow>
             let exported_hash = hash_multiple (blake2b C) [segment_slice]
             in Inr (Some (previous_root, previous_root, length (pl_operations p), pl_delivery p),
                     exported_segments @ [exported_hash], [segment_slice])
         | Inl StorageFull \<Rightarrow> Inr (None, exported_segments, [])
         | Inl e \<Rightarrow> Inr (None, exported_segments, []))"

section \<open>The two arms of the execution mode\<close>

definition run_batch ::
    "crypto \<Rightarrow> signed_operation list \<Rightarrow> delivery_mode \<Rightarrow> hash list \<Rightarrow> state \<Rightarrow> refine_run" where
  "run_batch C operations delivery exported_segments partial_state =
     (let previous_root = get_root (blake2b C) partial_state
      in bind_res (state_transition (merkle_ops (blake2b C)) operations partial_state)
           (\<lambda>partial_state.
              let new_root = get_root (blake2b C) partial_state
              in Inr (Some (previous_root, new_root, length operations, delivery),
                      exported_segments, [])))"

text \<open>\<open>Immediate | Deferring\<close>.\<close>

definition refine_verified ::
    "crypto \<Rightarrow> codec \<Rightarrow> refine_host \<Rightarrow> payload \<Rightarrow> hash list \<Rightarrow> refine_run" where
  "refine_verified C CD H p exported_segments =
     bind_res (deliver_witness CD H (pl_delivery p) (pl_witness p)) (\<lambda>delivered.
       case delivered of
         None \<Rightarrow> Inr (None, exported_segments, [])
       | Some witness \<Rightarrow>
           (case from_witness (blake2b C) witness of
              None \<Rightarrow> Inr (None, exported_segments, [])
            | Some partial_state \<Rightarrow>
                let previous_root = get_root (blake2b C) partial_state
                in bind_res (verify_operations C (pl_operations p)) (\<lambda>ok.
                     if \<not> ok then Inr (None, exported_segments, [])
                     else case pl_execution p of
                            Immediate \<Rightarrow>
                              run_batch C (pl_operations p) (pl_delivery p) exported_segments partial_state
                          | Deferring \<Rightarrow>
                              export_batch C CD H p witness previous_root exported_segments
                          | Deferred \<Rightarrow> Inl Unreachable)))"

text \<open>\<open>Deferred\<close>: the batch comes from the first imported segment.\<close>

definition refine_deferred ::
    "crypto \<Rightarrow> codec \<Rightarrow> refine_host \<Rightarrow> payload \<Rightarrow> hash list \<Rightarrow> refine_run" where
  "refine_deferred C CD H p exported_segments =
     (case import_segment H 0 of
        None \<Rightarrow> Inr (None, exported_segments, [])
      | Some segment \<Rightarrow>
          (case dec_segment CD segment of
             None \<Rightarrow> Inr (None, exported_segments, [])
           | Some segment_data \<Rightarrow>
               (case from_witness (blake2b C) (seg_witness segment_data) of
                  None \<Rightarrow> Inr (None, exported_segments, [])
                | Some partial_state \<Rightarrow>
                    run_batch C (seg_operations segment_data) (pl_delivery p) exported_segments
                      partial_state)))"

section \<open>Refinement of a payload\<close>

definition refine_transition ::
    "crypto \<Rightarrow> codec \<Rightarrow> refine_host \<Rightarrow> bytes \<Rightarrow> hash list \<Rightarrow> refine_run" where
  "refine_transition C CD H payload exported_segments =
     (case dec_payload CD payload of
        None \<Rightarrow> Inr (None, exported_segments, [])
      | Some p \<Rightarrow>
          (case pl_execution p of
             Immediate \<Rightarrow> refine_verified C CD H p exported_segments
           | Deferring \<Rightarrow> refine_verified C CD H p exported_segments
           | Deferred \<Rightarrow> refine_deferred C CD H p exported_segments))"

text \<open>The output bytes with the number of operations, and the exported slices.\<close>

definition refine_payload ::
    "crypto \<Rightarrow> codec \<Rightarrow> refine_host \<Rightarrow> bytes \<Rightarrow> panic + ((bytes \<times> nat) \<times> bytes list)" where
  "refine_payload C CD H payload =
     bind_res (refine_transition C CD H payload []) (\<lambda>(result, exported_segments, exports).
       case result of
         None \<Rightarrow> Inr (([], 0), exports)
       | Some (previous_root, new_root, operations_len, delivery) \<Rightarrow>
           let output = \<lparr>op_delivery = delivery, op_previous_root = previous_root,
                         op_new_root = new_root, op_exported_segments = exported_segments\<rparr>
           in Inr ((enc_operation CD output, operations_len), exports))"

text \<open>\<open>impl Service for TokenLedgerExternalClient\<close>.\<close>

definition service_refine :: "crypto \<Rightarrow> codec \<Rightarrow> refine_host \<Rightarrow> bytes \<Rightarrow> panic + (bytes \<times> bytes list)" where
  "service_refine C CD H payload =
     bind_res (refine_payload C CD H payload) (\<lambda>((encoded, operations_len), exports). Inr (encoded, exports))"

definition service_accumulate ::
    "'s storage_api \<Rightarrow> root_codec \<Rightarrow> (bytes \<Rightarrow> acc_operation option) \<Rightarrow>
       accumulate_item list \<Rightarrow> 's \<Rightarrow> panic + (hash option \<times> 's)" where
  "service_accumulate H RC decode items s =
     bind_res (on_accumulate_items H RC decode items s) (\<lambda>s. Inr (None, s))"

end
