(* ===== verification/Client_Node.thy ===== *)
theory Client_Node
  imports Files Refinement
begin

text \<open>
  The side of the client's \<open>main.rs\<close> that talks to a node: building a work package around a
  payload and submitting it. The node is a record of the answers it gives to one submission, the
  libraries (hash, codec, gas limits, the number of cores, the null authorizer) are the record
  \<open>client_env\<close>. A run changes files and the list of packages that nodes accepted; it panics, ends
  the process with \<open>exit(1)\<close>, or returns a value.
\<close>

section \<open>The world and its runs\<close>

record submission =
  sub_core :: u16
  sub_package :: bytes
  sub_extrinsics :: "bytes list"

record world =
  w_files :: file_system
  w_submitted :: "submission list"

text \<open>\<open>None\<close> is \<open>std::process::exit(1)\<close>; what was done before it stays done.\<close>

type_synonym 'a run = "world \<Rightarrow> panic + ('a option \<times> world)"

definition return_run :: "'a \<Rightarrow> 'a run" where
  "return_run x w = Inr (Some x, w)"

definition exit_run :: "'a run" where
  "exit_run w = Inr (None, w)"

definition panic_run :: "panic \<Rightarrow> 'a run" where
  "panic_run p w = Inl p"

definition bind_run :: "'a run \<Rightarrow> ('a \<Rightarrow> 'b run) \<Rightarrow> 'b run" where
  "bind_run m f w = bind_res (m w) (\<lambda>(r, w). case r of None \<Rightarrow> Inr (None, w) | Some x \<Rightarrow> f x w)"

text \<open>A computation on files alone.\<close>

definition files_run :: "(file_system \<Rightarrow> panic + ('a \<times> file_system)) \<Rightarrow> 'a run" where
  "files_run f w = bind_res (f (w_files w)) (\<lambda>(x, fs). Inr (Some x, w\<lparr>w_files := fs\<rparr>))"

lemma run_simps [simp]:
  "bind_run (return_run x) f = f x" "bind_run exit_run f = exit_run" "bind_run (panic_run p) f = panic_run p"
  by (simp_all add: fun_eq_iff bind_run_def return_run_def exit_run_def panic_run_def)

section \<open>The node\<close>

record block =
  blk_hash :: hash
  blk_slot :: u32

record service_info =
  svc_code_hash :: hash

text \<open>
  \<open>nd_connect\<close>: the runtime is created, the connection opens and the first \<open>best_block\<close> is answered;
  every failure of these ends the process. The other fields are the \<open>await\<close>ed queries.
\<close>

record node =
  nd_connect :: bool
  nd_finalized_block :: "string + block"
  nd_best_block :: "string + block"
  nd_parent :: "hash \<Rightarrow> string + block"
  nd_state_root :: "hash \<Rightarrow> string + hash"
  nd_beefy_root :: "hash \<Rightarrow> string + hash"
  nd_service_data :: "hash \<Rightarrow> u32 \<Rightarrow> string + service_info option"
  nd_service_preimage :: "hash \<Rightarrow> u32 \<Rightarrow> hash \<Rightarrow> string + bytes option"
  nd_submit :: "u16 \<Rightarrow> bytes \<Rightarrow> bytes list \<Rightarrow> string + unit"

record refine_context =
  rc_anchor :: hash
  rc_state_root :: hash
  rc_beefy_root :: hash
  rc_lookup_anchor :: hash
  rc_lookup_anchor_slot :: u32
  rc_prerequisites :: "hash list"

definition create_refine_context :: "node \<Rightarrow> string + (refine_context \<times> u32)" where
  "create_refine_context nd =
     bind_res (nd_finalized_block nd) (\<lambda>finalized.
     bind_res (nd_parent nd (blk_hash finalized)) (\<lambda>lookup_anchor.
     bind_res (nd_best_block nd) (\<lambda>best_block.
     bind_res (nd_parent nd (blk_hash best_block)) (\<lambda>parent.
     let anchor = blk_hash parent in
     bind_res (nd_state_root nd anchor) (\<lambda>state_root.
     bind_res (nd_beefy_root nd anchor) (\<lambda>beefy_root.
       Inr (\<lparr>rc_anchor = anchor, rc_state_root = state_root, rc_beefy_root = beefy_root,
             rc_lookup_anchor = blk_hash lookup_anchor, rc_lookup_anchor_slot = blk_slot lookup_anchor,
             rc_prerequisites = []\<rparr>, blk_slot parent)))))))"

section \<open>Work packages\<close>

text \<open>\<open>import_segments\<close> names the package whose segment is imported, and the index there.\<close>

record extrinsic_spec =
  ex_hash :: hash
  ex_len :: u32

record work_item =
  wi_service :: u32
  wi_code_hash :: hash
  wi_payload :: bytes
  wi_refine_gas_limit :: u64
  wi_accumulate_gas_limit :: u64
  wi_import_segments :: "(hash \<times> u16) list"
  wi_extrinsics :: "extrinsic_spec list"
  wi_export_count :: u16

record work_package =
  wp_authorization :: bytes
  wp_auth_code_host :: u32
  wp_authorizer_code_hash :: hash
  wp_authorizer_config :: bytes
  wp_context :: refine_context
  wp_items :: "work_item list"

record client_env =
  hash_raw :: "bytes \<Rightarrow> hash"
  enc_payload :: "payload \<Rightarrow> bytes"
  enc_witness :: "witness \<Rightarrow> bytes"
  enc_package :: "work_package \<Rightarrow> bytes"
  null_authorizer :: bytes
  max_refine_gas :: u64
  max_accumulate_gas :: u64
  val_count :: u16
  vals_per_core :: u16

definition BOOTSTRAP_SERVICE_ID :: u32 where
  "BOOTSTRAP_SERVICE_ID = 0"

definition DEFAULT_CORE :: u16 where
  "DEFAULT_CORE = 0"

record service_data =
  sd_service_id :: u32
  sd_service :: service_info
  sd_authorizer_hash :: hash

definition create_package ::
    "client_env \<Rightarrow> service_data \<Rightarrow> payload \<Rightarrow> u16 \<Rightarrow> refine_context \<Rightarrow> extrinsic_spec \<Rightarrow> hash option \<Rightarrow>
       bytes \<times> hash" where
  "create_package E sd p export_count context extrinsic_spec import_from_package =
     (let extrinsics = [extrinsic_spec];
          import_segments = (case import_from_package of
              Some prev_package_hash \<Rightarrow> [(prev_package_hash, 0)] | None \<Rightarrow> []);
          item = \<lparr>wi_service = sd_service_id sd, wi_code_hash = svc_code_hash (sd_service sd),
                  wi_payload = enc_payload E p, wi_refine_gas_limit = max_refine_gas E,
                  wi_accumulate_gas_limit = max_accumulate_gas E,
                  wi_import_segments = import_segments, wi_extrinsics = extrinsics,
                  wi_export_count = export_count\<rparr>;
          package = \<lparr>wp_authorization = [], wp_auth_code_host = BOOTSTRAP_SERVICE_ID,
                     wp_authorizer_code_hash = sd_authorizer_hash sd, wp_authorizer_config = [],
                     wp_context = context, wp_items = [item]\<rparr>;
          encoded_package = enc_package E package
      in (encoded_package, hash_raw E encoded_package))"

section \<open>Preflight\<close>

definition get_authorizer :: "client_env \<Rightarrow> node \<Rightarrow> hash \<Rightarrow> string + (hash \<times> bool)" where
  "get_authorizer E nd block =
     (let null_authorizer_hash = hash_raw E (null_authorizer E)
      in bind_res (nd_service_preimage nd block BOOTSTRAP_SERVICE_ID null_authorizer_hash) (\<lambda>preimage.
           Inr (null_authorizer_hash, preimage \<noteq> None)))"

text \<open>A service that is not there ends the process: the outer \<open>None\<close>.\<close>

definition get_service_data ::
    "client_env \<Rightarrow> node \<Rightarrow> u32 \<Rightarrow> hash \<Rightarrow> (string + (service_info \<times> hash)) option" where
  "get_service_data E nd service_id anchor =
     (case nd_service_data nd anchor service_id of
        Inl e \<Rightarrow> Some (Inl e)
      | Inr None \<Rightarrow> None
      | Inr (Some service) \<Rightarrow>
          Some (bind_res (get_authorizer E nd anchor) (\<lambda>(null_authorizer_hash, auth_available).
                bind_res (nd_service_preimage nd anchor service_id (svc_code_hash service)) (\<lambda>preimage.
                  if preimage = None \<or> \<not> auth_available then Inl ''Required preimages not available''
                  else Inr (service, null_authorizer_hash)))))"

section \<open>Submission\<close>

lemma next_core:
  fixes core max_core :: u16
  assumes "core < max_core" "(core + 1) mod max_core \<noteq> 0"
  shows "unat ((core + 1) mod max_core) = unat core + 1" "unat core + 1 < unat max_core"
proof -
  have lt: "unat core < unat max_core" using assms(1) by (simp add: word_less_nat_alt)
  moreover have "unat max_core < 2 ^ 16" using unsigned_less [of max_core, where 'a = nat] by simp
  ultimately have suc: "unat (core + 1) = unat core + 1" by (simp add: unat_plus_if')
  have "unat core + 1 \<noteq> unat max_core"
  proof
    assume "unat core + 1 = unat max_core"
    then have "unat ((core + 1) mod max_core) = 0" by (simp add: unat_mod suc)
    then show False using assms(2) by (simp only: unat_eq_0)
  qed
  then show "unat core + 1 < unat max_core" "unat ((core + 1) mod max_core) = unat core + 1"
    using lt by (simp_all add: unat_mod suc)
qed

text \<open>The loop over the cores: the core that took the package, or the error of the last one.\<close>

function submit_loop :: "(u16 \<Rightarrow> string + unit) \<Rightarrow> u16 \<Rightarrow> u16 \<Rightarrow> panic + (string + u16)" where
  "submit_loop submit max_core core =
     (case submit core of
        Inr _ \<Rightarrow> Inr (Inr core)
      | Inl error \<Rightarrow>
          if max_core = 0 then Inl RemainderByZero
          else
            let core' = (core + 1) mod max_core
            in if core' = DEFAULT_CORE then Inr (Inl error) else submit_loop submit max_core core')"
  by pat_completeness auto

termination
proof (relation "measure (\<lambda>(submit, max_core, core).
    if core < max_core then unat max_core - unat core else unat max_core + 1)", goal_cases)
  case (2 submit max_core core e core')
  then have lt: "core' < max_core" and ne: "(core + 1) mod max_core \<noteq> 0"
    by (simp_all add: word_less_nat_alt unat_mod unat_gt_0 DEFAULT_CORE_def)
  show ?case
  proof (cases "core < max_core")
    case True
    then show ?thesis using next_core [OF True ne] lt 2 by simp
  next
    case False
    then show ?thesis using lt by (simp add: 2)
  qed
qed simp

declare submit_loop.simps [simp del]

text \<open>\<open>submit_to_node\<close>: a package, and the extrinsic data it names.\<close>

definition submit_to_node ::
    "client_env \<Rightarrow> node \<Rightarrow> u32 option \<Rightarrow> payload \<Rightarrow> witness option \<Rightarrow> u16 \<Rightarrow> hash option \<Rightarrow>
       (string + hash) run" where
  "submit_to_node E nd service_id p extrinsic_witness export_count prev_wp_hash =
     (if \<not> nd_connect nd then exit_run
      else case create_refine_context nd of
        Inl error \<Rightarrow> return_run (Inl error)
      | Inr (context, anchor_slot) \<Rightarrow>
          (case service_id of
             None \<Rightarrow> panic_run UnwrapFailed
           | Some service_id \<Rightarrow>
               (case get_service_data E nd service_id (rc_anchor context) of
                  None \<Rightarrow> exit_run
                | Some (Inl error) \<Rightarrow> exit_run
                | Some (Inr (service, null_authorizer_hash)) \<Rightarrow>
                    let extrinsic_data = (case extrinsic_witness of
                            Some witness \<Rightarrow> enc_witness E witness | None \<Rightarrow> []);
                        extrinsic_specs = \<lparr>ex_hash = hash_raw E extrinsic_data,
                                           ex_len = of_nat (length extrinsic_data)\<rparr>;
                        extrinsic_bytes = [extrinsic_data];
                        (encoded_package, package_hash) = create_package E
                          \<lparr>sd_service_id = service_id, sd_service = service,
                           sd_authorizer_hash = null_authorizer_hash\<rparr>
                          p export_count context extrinsic_specs prev_wp_hash;
                        max_core = val_count E div vals_per_core E
                    in case submit_loop (\<lambda>core. nd_submit nd core encoded_package extrinsic_bytes)
                              max_core DEFAULT_CORE of
                         Inl panic \<Rightarrow> panic_run panic
                       | Inr (Inl error) \<Rightarrow> return_run (Inl error)
                       | Inr (Inr core) \<Rightarrow> (\<lambda>w. return_run (Inr package_hash)
                           (w\<lparr>w_submitted := w_submitted w @
                                [\<lparr>sub_core = core, sub_package = encoded_package,
                                  sub_extrinsics = extrinsic_bytes\<rparr>]\<rparr>)))))"

section \<open>A package of the client\<close>

definition export_payload :: "client_env \<Rightarrow> path option \<Rightarrow> payload \<Rightarrow> unit run" where
  "export_payload E output_path p =
     (case output_path of
        None \<Rightarrow> return_run ()
      | Some output_path \<Rightarrow>
          files_run (\<lambda>fs. bind_res (create_file output_path (enc_payload E p) fs) (\<lambda>fs. Inr ((), fs))))"

definition create_and_submit_package ::
    "client_env \<Rightarrow> node \<Rightarrow> path option \<Rightarrow> payload \<Rightarrow> witness option \<Rightarrow> u16 \<Rightarrow> u32 \<Rightarrow> hash option \<Rightarrow> hash run" where
  "create_and_submit_package E nd output_path p extrinsic_witness export_count service_id prev_wp_hash =
     bind_run (export_payload E output_path p) (\<lambda>_.
     bind_run (submit_to_node E nd (Some service_id) p extrinsic_witness export_count prev_wp_hash) (\<lambda>result.
       case result of Inr package_hash \<Rightarrow> return_run package_hash | Inl error \<Rightarrow> exit_run))"

end
