(* ===== verification/Partial_State.thy ===== *)
theory Partial_State
  imports State_Ops
begin

text \<open>
  Partial states. A state loaded from a witness holds some node hashes and entries of the full
  state; \<open>covers\<close> says which part of the two agrees: the hashes at a set of nodes that holds the
  root and the siblings of a set of indices, and the entries at those indices. Reads, writes and
  roots on the covered part are the full state's. \<open>load_honest\<close> shows that a witness cut from a
  well-formed state loads into a state that covers it. The locale \<open>state_ops_sim\<close> lifts a step-wise
  correspondence of two implementations of \<open>StateOps\<close> to whole batches.
\<close>

section \<open>Agreement on a set of nodes\<close>

definition agree_on :: "tree_index set \<Rightarrow> merkle_tree \<Rightarrow> merkle_tree \<Rightarrow> bool" where
  "agree_on N t u \<longleftrightarrow> (\<forall>n \<in> N. get_hash t n = get_hash u n)"

lemma agree_insert:
  "sibling_nodes ix \<subseteq> N \<Longrightarrow> agree_on N t u \<Longrightarrow>
     agree_on N (tree_insert B ix v t) (tree_insert B ix v u)"
  unfolding agree_on_def by (blast intro: tree_insert_agree)

lemma agree_trans: "agree_on N t u \<Longrightarrow> agree_on N u v \<Longrightarrow> agree_on N t v"
  by (simp add: agree_on_def)

text \<open>Inserting a leaf that is already there changes no hash.\<close>

lemma tree_insert_same:
  assumes s: "store_ok B s" and kv: "bt_get (key_values s) ix = Some kv"
  shows "get_hash (tree_insert B ix (kv_merkle_value B kv) (tree s)) n = get_hash (tree s) n"
proof (cases "n \<in> path_nodes ix")
  case True
  have ix: "unat ix < 2 ^ 15" using s kv by (auto simp: store_ok_def leaf_key_def)
  obtain l where l: "l \<le> 15" and n: "n = node l (unat ix div 2 ^ l)" using True by (auto simp: path_nodes_def)
  have "get_hash (tree s) (node 0 (unat ix)) = kv_merkle_value B kv"
    using s kv ix by (simp add: store_ok_def leaf_hash_def)
  then have "path_hash B (get_hash (tree s)) (kv_merkle_value B kv) (unat ix) l
      = get_hash (tree s) (node l (unat ix div 2 ^ l))"
    using path_hash_tree [of B "tree s" "unat ix" l "get_hash (tree s)"] s ix l
    by (simp add: store_ok_def)
  then show ?thesis using tree_insert_path [OF ix l] n by simp
qed (rule tree_insert_other)

section \<open>The covered part\<close>

definition covers :: "tree_index set \<Rightarrow> tree_index set \<Rightarrow> state_tree \<Rightarrow> state_tree \<Rightarrow> bool" where
  "covers N I p s \<longleftrightarrow>
     65534 \<in> N \<and> agree_on N (tree p) (tree s) \<and>
     (\<forall>ix \<in> I. sibling_nodes ix \<subseteq> N \<and> bt_get (key_values p) ix = bt_get (key_values s) ix)"

lemma covers_root: "covers N I p s \<Longrightarrow> st_root p = st_root s"
  by (simp add: covers_def agree_on_def st_root_def tree_root_eq)

lemma covers_get: "covers N I p s \<Longrightarrow> tree_index_from_key B k \<in> I \<Longrightarrow> st_get B k p = st_get B k s"
  by (simp add: covers_def st_get_eq)

lemma covers_set:
  assumes c: "covers N I p s" and ix: "tree_index_from_key B k \<in> I"
  shows "fst (st_set B k v p) = fst (st_set B k v s)"
    "covers N I (snd (st_set B k v p)) (snd (st_set B k v s))"
proof -
  show eq: "fst (st_set B k v p) = fst (st_set B k v s)"
    using c ix by (simp add: st_set_ok_iff covers_def)
  show "covers N I (snd (st_set B k v p)) (snd (st_set B k v s))"
  proof (cases "fst (st_set B k v s)")
    case True
    then have "fst (st_set B k v p)" using eq by simp
    with True show ?thesis using c ix by (auto simp: st_set_True covers_def intro: agree_insert)
  next
    case False
    then show ?thesis using eq c by (simp add: st_set_False)
  qed
qed

text \<open>The same for states, which agree on the known tokens entirely.\<close>

definition state_covers :: "tree_index set \<Rightarrow> tree_index set \<Rightarrow> state \<Rightarrow> state \<Rightarrow> bool" where
  "state_covers N I p s \<longleftrightarrow>
     covers N I (balances p) (balances s) \<and> known_tokens p = known_tokens s"

lemma state_covers_root: "state_covers N I p s \<Longrightarrow> get_root B p = get_root B s"
  by (auto simp: state_covers_def get_root_def dest: covers_root)

lemma state_covers_set:
  assumes "state_covers N I p s" "tree_index_from_key B (balance_key t a) \<in> I"
    and "set_balance B a t v s = Inr s'"
  shows "\<exists>p'. set_balance B a t v p = Inr p' \<and> state_covers N I p' s'"
  using assms covers_set [of N I "balances p" "balances s" B "balance_key t a" v]
  by (auto simp: state_covers_def set_balance_Inr)

section \<open>Loading what a full state holds\<close>

lemma load_honest:
  assumes s: "store_ok B s" and root: "65534 \<in> N"
    and kvs: "\<forall>(k, v) \<in> set kvs. st_get B k s = Some v \<and> sibling_nodes (tree_index_from_key B k) \<subseteq> N"
    and t: "agree_on N (tree t) (tree s)"
      "\<forall>ix kv. bt_get (key_values t) ix = Some kv \<longrightarrow> bt_get (key_values s) ix = Some kv"
  shows "\<exists>p. load_values B (st_root s) kvs t = Some p \<and> agree_on N (tree p) (tree s) \<and>
    (\<forall>ix. bt_get (key_values p) ix =
       (if ix \<in> tree_index_from_key B ` fst ` set kvs then bt_get (key_values s) ix
        else bt_get (key_values t) ix))"
  using kvs t
proof (induction kvs arbitrary: t)
  case (Cons e kvs)
  obtain k v where e: "e = (k, v)" by (cases e)
  let ?ix = "tree_index_from_key B k" and ?kv = "\<lparr>kv_value = v, kv_key = k\<rparr>"
  let ?t = "snd (st_set B k v t)"
  have sib: "sibling_nodes ?ix \<subseteq> N" using Cons.prems(1) by (simp add: e)
  have entry: "bt_get (key_values s) ?ix = Some ?kv"
    using Cons.prems(1) by (auto simp: e st_get_eq split: option.splits if_splits)
  have ok: "fst (st_set B k v t)"
    using Cons.prems(3) entry by (auto simp: st_set_ok_iff split: option.split)
  have "agree_on N (tree_insert B ?ix (kv_merkle_value B ?kv) (tree s)) (tree s)"
    using tree_insert_same [OF s entry] by (simp add: agree_on_def)
  then have agree: "agree_on N (tree ?t) (tree s)"
    using agree_insert [OF sib Cons.prems(2)] agree_trans by (simp add: st_set_True [OF ok]) blast
  have sub: "\<forall>ix kv. bt_get (key_values ?t) ix = Some kv \<longrightarrow> bt_get (key_values s) ix = Some kv"
    using Cons.prems(3) entry by (simp add: st_set_True [OF ok])
  have "st_root ?t = st_root s" using agree root by (simp add: agree_on_def st_root_def tree_root_eq)
  moreover obtain p where "load_values B (st_root s) kvs ?t = Some p" "agree_on N (tree p) (tree s)"
    and "\<forall>ix. bt_get (key_values p) ix =
       (if ix \<in> tree_index_from_key B ` fst ` set kvs then bt_get (key_values s) ix
        else bt_get (key_values ?t) ix)"
    using Cons.IH [OF _ agree sub] Cons.prems(1) by (auto simp: e)
  ultimately show ?case
    using entry by (intro exI [of _ p]) (auto simp: e st_set_True [OF ok])
qed simp

section \<open>Corresponding runs of a batch\<close>

text \<open>
  The first implementation runs to a state that is \<open>final\<close>; the second follows it. A write is only
  followed where the first has read the entry before (\<open>seen\<close>), which the code does throughout.
\<close>

locale state_ops_sim =
  fixes M1 :: "'a state_ops" and M2 :: "'b state_ops"
    and rel :: "'a \<Rightarrow> 'b \<Rightarrow> bool"
    and final :: "'a \<Rightarrow> bool"
    and seen :: "account_id \<Rightarrow> token_id \<Rightarrow> 'a \<Rightarrow> bool"
  assumes sim_contains: "rel x y \<Longrightarrow> so_known_tokens_contains M1 t x = so_known_tokens_contains M2 t y"
    and push_final: "final (so_known_tokens_push M1 t x) \<Longrightarrow> final x"
    and sim_push: "rel x y \<Longrightarrow> rel (so_known_tokens_push M1 t x) (so_known_tokens_push M2 t y)"
    and get_final: "final (snd (so_get_balance M1 a t x)) \<Longrightarrow> final x"
    and sim_get: "rel x y \<Longrightarrow> final (snd (so_get_balance M1 a t x)) \<Longrightarrow>
      fst (so_get_balance M1 a t x) = fst (so_get_balance M2 a t y) \<and>
      rel (snd (so_get_balance M1 a t x)) (snd (so_get_balance M2 a t y))"
    and get_seen: "rel x y \<Longrightarrow> seen a t (snd (so_get_balance M1 a t x))"
    and seen_get: "seen b u x \<Longrightarrow> seen b u (snd (so_get_balance M1 a t x))"
    and set_final: "so_set_balance M1 a t v x = Inr x' \<Longrightarrow> final x' \<Longrightarrow> final x"
    and set_seen: "so_set_balance M1 a t v x = Inr x' \<Longrightarrow> seen b u x \<Longrightarrow> seen b u x'"
    and sim_set: "so_set_balance M1 a t v x = Inr x' \<Longrightarrow> final x' \<Longrightarrow> seen a t x \<Longrightarrow> rel x y \<Longrightarrow>
      \<exists>y'. so_set_balance M2 a t v y = Inr y' \<and> rel x' y'"
begin

definition follows :: "('a \<Rightarrow> panic + 'a) \<Rightarrow> ('b \<Rightarrow> panic + 'b) \<Rightarrow> bool" where
  "follows f g \<longleftrightarrow> (\<forall>x x' y. f x = Inr x' \<longrightarrow> final x' \<longrightarrow>
     final x \<and> (rel x y \<longrightarrow> (\<exists>y'. g y = Inr y' \<and> rel x' y')))"

lemma mint_follows: "follows (process_mint M1 to t a) (process_mint M2 to t a)"
  unfolding follows_def
proof (intro allI impI)
  fix x x' y assume run: "process_mint M1 to t a x = Inr x'" and fin: "final x'"
  let ?x1 = "so_known_tokens_push M1 t x" and ?y1 = "so_known_tokens_push M2 t y"
  let ?x2 = "snd (so_get_balance M1 to t ?x1)" and ?y2 = "snd (so_get_balance M2 to t ?y1)"
  let ?v = "saturating_add (amount_of (fst (so_get_balance M1 to t ?x1))) a"
  show "final x \<and> (rel x y \<longrightarrow> (\<exists>y'. process_mint M2 to t a y = Inr y' \<and> rel x' y'))"
  proof (cases "so_known_tokens_contains M1 t x")
    case True
    then show ?thesis using run fin sim_contains by (auto simp: process_mint_def)
  next
    case False
    then have set: "so_set_balance M1 to t ?v ?x2 = Inr x'"
      using run by (simp add: process_mint_def Let_def case_prod_unfold amount_of_def)
    have f2: "final ?x2" using set_final [OF set fin] .
    have f1: "final x" using push_final get_final f2 by blast
    have "\<exists>y'. process_mint M2 to t a y = Inr y' \<and> rel x' y'" if r: "rel x y"
    proof -
      have r1: "rel ?x1 ?y1" using sim_push [OF r] .
      have g: "fst (so_get_balance M1 to t ?x1) = fst (so_get_balance M2 to t ?y1)" "rel ?x2 ?y2"
        using sim_get [OF r1 f2] by auto
      show ?thesis
        using sim_set [OF set fin get_seen [OF r1] g(2)] False sim_contains [OF r] g(1)
        by (simp add: process_mint_def Let_def case_prod_unfold amount_of_def)
    qed
    then show ?thesis using f1 by blast
  qed
qed

lemma transfer_writes_follow:
  fixes x :: 'a and t :: token_id and "from" to :: account_id
  defines "x1 \<equiv> snd (so_get_balance M1 from t x)"
  defines "x2 \<equiv> snd (so_get_balance M1 to t x1)"
  defines "bf \<equiv> amount_of (fst (so_get_balance M1 from t x))"
  defines "bt \<equiv> amount_of (fst (so_get_balance M1 to t x1))"
  assumes r: "rel x y" and known: "so_known_tokens_contains M1 t x" "\<not> bf < a"
    and fin: "final x1" "final x2" "final x3" "final x'"
    and sets: "so_set_balance M1 from t (bf - a) x2 = Inr x3"
      "so_set_balance M1 to t (saturating_add bt a) x3 = Inr x'"
  shows "\<exists>y'. process_transfer M2 from to t a y = Inr y' \<and> rel x' y'"
proof -
  let ?y1 = "snd (so_get_balance M2 from t y)"
  let ?y2 = "snd (so_get_balance M2 to t ?y1)"
  have g1: "fst (so_get_balance M1 from t x) = fst (so_get_balance M2 from t y)" "rel x1 ?y1"
    using sim_get [OF r fin(1) [unfolded x1_def]] by (auto simp: x1_def)
  have g2: "fst (so_get_balance M1 to t x1) = fst (so_get_balance M2 to t ?y1)" "rel x2 ?y2"
    using sim_get [OF g1(2) fin(2) [unfolded x2_def]] by (auto simp: x2_def)
  have s: "seen from t x2" "seen to t x2"
    using get_seen [OF r] seen_get get_seen [OF g1(2)] by (auto simp: x1_def x2_def)
  obtain y3 where y3: "so_set_balance M2 from t (bf - a) ?y2 = Inr y3" "rel x3 y3"
    using sim_set [OF sets(1) fin(3) s(1) g2(2)] by blast
  obtain y' where y': "so_set_balance M2 to t (saturating_add bt a) y3 = Inr y'" "rel x' y'"
    using sim_set [OF sets(2) fin(4) set_seen [OF sets(1) s(2)] y3(2)] by blast
  show ?thesis
    using y3(1) y' known sim_contains [OF r] g1(1) g2(1)
    by (simp add: process_transfer_def Let_def case_prod_unfold amount_of_def bf_def bt_def x1_def)
qed

lemma transfer_follows: "follows (process_transfer M1 from to t a) (process_transfer M2 from to t a)"
  unfolding follows_def
proof (intro allI impI)
  fix x x' y assume run: "process_transfer M1 from to t a x = Inr x'" and fin: "final x'"
  let ?x1 = "snd (so_get_balance M1 from t x)"
  let ?x2 = "snd (so_get_balance M1 to t ?x1)"
  let ?bf = "amount_of (fst (so_get_balance M1 from t x))"
  let ?bt = "amount_of (fst (so_get_balance M1 to t ?x1))"
  consider "\<not> so_known_tokens_contains M1 t x" "x' = x"
    | "so_known_tokens_contains M1 t x" "?bf < a" "x' = ?x1"
    | x3 where "so_known_tokens_contains M1 t x" "\<not> ?bf < a"
        "so_set_balance M1 from t (?bf - a) ?x2 = Inr x3"
        "so_set_balance M1 to t (saturating_add ?bt a) x3 = Inr x'"
    using run
    by (auto simp: process_transfer_def Let_def case_prod_unfold amount_of_def bind_res_Inr_iff
        split: if_splits)
  then show "final x \<and> (rel x y \<longrightarrow> (\<exists>y'. process_transfer M2 from to t a y = Inr y' \<and> rel x' y'))"
  proof cases
    case 1
    then show ?thesis using fin sim_contains by (auto simp: process_transfer_def)
  next
    case 2
    then have f: "final ?x1" using fin by simp
    have "\<exists>y'. process_transfer M2 from to t a y = Inr y' \<and> rel x' y'" if r: "rel x y"
      using sim_get [OF r f] 2 sim_contains [OF r]
      by (simp add: process_transfer_def Let_def case_prod_unfold amount_of_def)
    then show ?thesis using get_final [OF f] by blast
  next
    case (3 x3)
    have f3: "final x3" using set_final [OF 3(4) fin] .
    have f2: "final ?x2" using set_final [OF 3(3) f3] .
    have f1: "final ?x1" using get_final [OF f2] .
    show ?thesis using get_final [OF f1] transfer_writes_follow [OF _ 3(1,2) f1 f2 f3 fin 3(3,4)] by blast
  qed
qed

lemma fold_follows:
  assumes "\<And>e. e \<in> set es \<Longrightarrow> follows (f e) (g e)"
  shows "follows (fold_res f es) (fold_res g es)"
  using assms
proof (induction es)
  case (Cons e es)
  have e: "follows (f e) (g e)" and es: "follows (fold_res f es) (fold_res g es)" using Cons by simp_all
  show ?case
    unfolding follows_def
  proof (intro allI impI)
    fix x x' y assume "fold_res f (e # es) x = Inr x'" and fin: "final x'"
    then obtain x1 where x1: "f e x = Inr x1" "fold_res f es x1 = Inr x'"
      by (auto simp: bind_res_Inr_iff)
    then show "final x \<and> (rel x y \<longrightarrow> (\<exists>y'. fold_res g (e # es) y = Inr y' \<and> rel x' y'))"
      using e es fin unfolding follows_def by (auto simp: bind_res_Inr_iff) blast
  qed
qed (simp add: follows_def)

lemma settle_follows: "follows (settle_transfer M1 e) (settle_transfer M2 e)"
proof -
  obtain t a b n where e: "e = ((t, (a, b)), n)" by (metis surj_pair)
  have "follows Inr Inr" by (simp add: follows_def)
  then show ?thesis
    using transfer_follows [of a b t n] transfer_follows [of b a t "- n"]
    by (cases "0 < sint n"; cases "sint n < 0") (auto simp: settle_transfer_def e follows_def)
qed

lemma step_Mint: "operation op = Mint to t a \<Longrightarrow>
    transition_step M op (s, st) = bind_res (process_mint M to t a s) (\<lambda>s. Inr (s, st))"
  by (simp add: transition_step_def)

lemma step_Transfer: "operation op = Transfer from to t a \<Longrightarrow>
    transition_step M op (s, st) = Inr (s, stage_transfer from to t a st)"
  by (simp add: transition_step_def)

lemma loop_follows:
  "fold_res (transition_step M1) ops (x, st) = Inr (x', st') \<Longrightarrow> final x' \<Longrightarrow>
     final x \<and> (rel x y \<longrightarrow> (\<exists>y'. fold_res (transition_step M2) ops (y, st) = Inr (y', st') \<and> rel x' y'))"
proof (induction ops arbitrary: x y st)
  case (Cons op ops)
  show ?case
  proof (cases "operation op")
    case (Mint to t a)
    then obtain x1 where x1: "process_mint M1 to t a x = Inr x1"
      "fold_res (transition_step M1) ops (x1, st) = Inr (x', st')"
      using Cons.prems(1) by (auto simp: step_Mint bind_res_Inr_iff)
    have f1: "final x1" using Cons.IH [OF x1(2) Cons.prems(2)] by blast
    have "\<exists>y'. fold_res (transition_step M2) (op # ops) (y, st) = Inr (y', st') \<and> rel x' y'" if r: "rel x y"
    proof -
      obtain y1 where "process_mint M2 to t a y = Inr y1" "rel x1 y1"
        using mint_follows [of to t a] x1(1) f1 r unfolding follows_def by blast
      then show ?thesis using Cons.IH [OF x1(2) Cons.prems(2)] Mint by (simp add: step_Mint)
    qed
    then show ?thesis using mint_follows [of to t a] x1(1) f1 unfolding follows_def by blast
  next
    case (Transfer "from" to t a)
    then show ?thesis using Cons.prems Cons.IH by (simp add: step_Transfer)
  qed
qed simp

lemma transition_follows: "follows (state_transition M1 ops) (state_transition M2 ops)"
  unfolding follows_def
proof (intro allI impI)
  fix x x' y assume run: "state_transition M1 ops x = Inr x'" and fin: "final x'"
  then obtain x1 st where loop: "fold_res (transition_step M1) ops (x, []) = Inr (x1, st)"
    and settle: "fold_res (settle_transfer M1) st x1 = Inr x'"
    by (auto simp: state_transition_def bind_res_Inr_iff)
  have second: "follows (fold_res (settle_transfer M1) st) (fold_res (settle_transfer M2) st)"
    by (rule fold_follows) (rule settle_follows)
  then have "final x1" using settle fin by (simp add: follows_def)
  then show "final x \<and> (rel x y \<longrightarrow> (\<exists>y'. state_transition M2 ops y = Inr y' \<and> rel x' y'))"
    using loop_follows [OF loop] second settle fin unfolding follows_def
    by (auto simp: state_transition_def bind_res_Inr_iff) blast
qed

lemma transition_final: "state_transition M1 ops x = Inr x' \<Longrightarrow> final x' \<Longrightarrow> final x"
  using transition_follows unfolding follows_def by blast

lemma transition_sim:
  "state_transition M1 ops x = Inr x' \<Longrightarrow> final x' \<Longrightarrow> rel x y \<Longrightarrow>
     \<exists>y'. state_transition M2 ops y = Inr y' \<and> rel x' y'"
  using transition_follows unfolding follows_def by blast

end

end
