(* ===== verification/Builder_State.thy ===== *)
theory Builder_State
  imports Partial_State
begin

text \<open>
  The client's state (\<open>token-ledger-builder-v2\<close>, \<open>src/state.rs\<close>): the shared store, and around it
  the recorder of the hashes and entries a batch touches, which become the witness sent to the
  service. The \<open>RefCell\<close>s that let a read record are ordinary state here: a read returns its
  answer and the updated recorder. Files are in \<open>Builder_Persist\<close>.
\<close>

section \<open>The recorder of hashes\<close>

record tree_witness =
  initial_hashes :: "(tree_index, hash) btree_map"
  tw_witness :: "(tree_index, hash) btree_map"

definition record_witness_hash :: "merkle_tree \<Rightarrow> tree_index \<Rightarrow> tree_witness \<Rightarrow> hash \<times> tree_witness" where
  "record_witness_hash merkle ix tw =
     (let hash = get_hash merkle ix
      in if hash = EMPTY_HASH then (hash, tw)
         else
           let witness_hash = (case bt_get (initial_hashes tw) ix of Some h \<Rightarrow> h | None \<Rightarrow> EMPTY_HASH);
               tw = (if witness_hash \<noteq> EMPTY_HASH
                     then tw\<lparr>tw_witness := bt_insert ix witness_hash (tw_witness tw)\<rparr> else tw)
           in (hash, tw))"

definition tw_root :: "merkle_tree \<Rightarrow> tree_witness \<Rightarrow> hash \<times> tree_witness" where
  "tw_root merkle tw = record_witness_hash merkle (of_nat (TREE_HASHES - 1)) tw"

fun record_access_step ::
    "merkle_tree \<Rightarrow> nat \<Rightarrow> tree_index \<times> tree_index \<times> tree_witness \<Rightarrow> tree_index \<times> tree_index \<times> tree_witness" where
  "record_access_step merkle depth (at, offset, tw) =
     (let tw = snd (record_witness_hash merkle
                 (if at mod 2 = 0 then offset + at + 1 else offset + at - 1) tw)
      in (at div 2, offset + push_bit (TREE_DEPTH - depth) 1, tw))"

definition record_witness_access :: "merkle_tree \<Rightarrow> tree_index \<Rightarrow> tree_witness \<Rightarrow> tree_witness" where
  "record_witness_access merkle ix tw =
     (let (at, offset, tw) = fold (record_access_step merkle) [0..<TREE_DEPTH] (ix, 0, tw) in tw)"

section \<open>The recording store\<close>

record b_state_tree =
  bt_state :: state_tree
  bt_tree_witness :: tree_witness
  key_values_witness :: "(bytes, u64) btree_map"

definition empty_b_state_tree :: b_state_tree where
  "empty_b_state_tree =
     \<lparr>bt_state = empty_state_tree, bt_tree_witness = \<lparr>initial_hashes = [], tw_witness = []\<rparr>,
      key_values_witness = []\<rparr>"

definition bs_get_value :: "hasher \<Rightarrow> bytes \<Rightarrow> b_state_tree \<Rightarrow> key_value option \<times> b_state_tree" where
  "bs_get_value B k b =
     (let ix = tree_index_from_key B k;
          b = b\<lparr>bt_tree_witness := record_witness_access (tree (bt_state b)) ix (bt_tree_witness b)\<rparr>;
          v = bt_get (key_values (bt_state b)) ix
      in case v of
           Some value_v \<Rightarrow>
             let b = (if bt_get (key_values_witness b) (kv_key value_v) = None
                      then b\<lparr>key_values_witness :=
                               bt_insert (kv_key value_v) (kv_value value_v) (key_values_witness b)\<rparr>
                      else b)
             in if kv_key value_v \<noteq> k then (None, b) else (v, b)
         | None \<Rightarrow> (v, b))"

definition bs_get :: "hasher \<Rightarrow> bytes \<Rightarrow> b_state_tree \<Rightarrow> u64 option \<times> b_state_tree" where
  "bs_get B k b =
     (let (v, b) = bs_get_value B k b
      in (case v of None \<Rightarrow> None | Some v \<Rightarrow> if kv_key v \<noteq> k then None else Some (kv_value v), b))"

definition bs_set :: "hasher \<Rightarrow> bytes \<Rightarrow> u64 \<Rightarrow> b_state_tree \<Rightarrow> bool \<times> b_state_tree" where
  "bs_set B k v b =
     (let ix = tree_index_from_key B k;
          b = b\<lparr>bt_tree_witness := record_witness_access (tree (bt_state b)) ix (bt_tree_witness b)\<rparr>;
          (ok, s) = st_set B k v (bt_state b)
      in (ok, b\<lparr>bt_state := s\<rparr>))"

definition bs_root :: "b_state_tree \<Rightarrow> hash \<times> b_state_tree" where
  "bs_root b =
     (let (h, tw) = tw_root (tree (bt_state b)) (bt_tree_witness b) in (h, b\<lparr>bt_tree_witness := tw\<rparr>))"

definition bs_init_from_witness ::
    "hasher \<Rightarrow> (tree_index \<times> hash) list \<Rightarrow> (bytes \<times> u64) list \<Rightarrow> b_state_tree option" where
  "bs_init_from_witness B witness_hashes witness_key_values =
     (case st_init_from_witness B witness_hashes witness_key_values of
        None \<Rightarrow> None
      | Some s \<Rightarrow> Some \<lparr>bt_state = s,
            bt_tree_witness = \<lparr>initial_hashes = hashes (tree s), tw_witness = []\<rparr>,
            key_values_witness = []\<rparr>)"

definition bs_take_witness ::
    "b_state_tree \<Rightarrow> ((tree_index, hash) btree_map \<times> (bytes, u64) btree_map) \<times> b_state_tree" where
  "bs_take_witness b =
     (let hs = tw_witness (bt_tree_witness b);
          b = b\<lparr>bt_tree_witness := \<lparr>initial_hashes = hashes (tree (bt_state b)), tw_witness = []\<rparr>\<rparr>;
          values = key_values_witness b
      in ((hs, values), b\<lparr>key_values_witness := []\<rparr>))"

section \<open>Known tokens\<close>

record b_known_tokens =
  bk_merkle :: known_tokens
  bk_witness :: "token_id list"

definition bk_take_witness :: "b_known_tokens \<Rightarrow> token_id list \<times> b_known_tokens" where
  "bk_take_witness k = (bk_witness k, k\<lparr>bk_witness := token_ids (bk_merkle k)\<rparr>)"

section \<open>The client's state\<close>

record 'path b_state =
  b_balances :: b_state_tree
  b_known_tokens :: b_known_tokens
  b_persist :: "'path option"

definition empty_b_state :: "'path b_state" where
  "empty_b_state =
     \<lparr>b_balances = empty_b_state_tree,
      b_known_tokens = \<lparr>bk_merkle = \<lparr>token_ids = []\<rparr>, bk_witness = []\<rparr>,
      b_persist = None\<rparr>"

definition take_witness :: "'path b_state \<Rightarrow> witness \<times> 'path b_state" where
  "take_witness b =
     (let ((hashes, values), bal) = bs_take_witness (b_balances b);
          (ids, kt) = bk_take_witness (b_known_tokens b)
      in (\<lparr>wit_hashes = hashes, key_value_balances = values, wit_token_ids = ids\<rparr>,
          b\<lparr>b_balances := bal, b_known_tokens := kt\<rparr>))"

definition b_from_witness :: "hasher \<Rightarrow> witness \<Rightarrow> 'path b_state option" where
  "b_from_witness B w =
     (case bs_init_from_witness B (wit_hashes w) (key_value_balances w) of
        None \<Rightarrow> None
      | Some bal \<Rightarrow>
          let result = empty_b_state\<lparr>b_balances := bal,
                b_known_tokens := (b_known_tokens empty_b_state)\<lparr>bk_merkle := \<lparr>token_ids = wit_token_ids w\<rparr>\<rparr>\<rparr>
          in Some (snd (take_witness result)))"

definition b_get_root :: "hasher \<Rightarrow> 'path b_state \<Rightarrow> hash \<times> 'path b_state" where
  "b_get_root B b =
     (let (r, bal) = bs_root (b_balances b)
      in (hash_pair B r (known_tokens_merkle_value B (bk_merkle (b_known_tokens b))), b\<lparr>b_balances := bal\<rparr>))"

definition set_new_persist_file :: "'path \<Rightarrow> 'path b_state \<Rightarrow> 'path b_state" where
  "set_new_persist_file db_location b = b\<lparr>b_persist := Some db_location\<rparr>"

section \<open>StateOps\<close>

definition b_get_balance ::
    "hasher \<Rightarrow> account_id \<Rightarrow> token_id \<Rightarrow> 'path b_state \<Rightarrow> u64 option \<times> 'path b_state" where
  "b_get_balance B account token_id b =
     (let to_key = balance_key token_id account; (v, bal) = bs_get B to_key (b_balances b)
      in (v, b\<lparr>b_balances := bal\<rparr>))"

definition b_set_balance ::
    "hasher \<Rightarrow> account_id \<Rightarrow> token_id \<Rightarrow> u64 \<Rightarrow> 'path b_state \<Rightarrow> panic + 'path b_state" where
  "b_set_balance B account token_id balance b =
     (let to_key = balance_key token_id account; (ok, bal) = bs_set B to_key balance (b_balances b)
      in if \<not> ok then Inl KeyCollision else Inr (b\<lparr>b_balances := bal\<rparr>))"

definition b_known_tokens_contains :: "token_id \<Rightarrow> 'path b_state \<Rightarrow> bool" where
  "b_known_tokens_contains token_id b = token_contains token_id (bk_merkle (b_known_tokens b))"

definition b_known_tokens_push :: "token_id \<Rightarrow> 'path b_state \<Rightarrow> 'path b_state" where
  "b_known_tokens_push token_id b =
     b\<lparr>b_known_tokens := (b_known_tokens b)\<lparr>bk_merkle := push_token token_id (bk_merkle (b_known_tokens b))\<rparr>\<rparr>"

definition builder_ops :: "hasher \<Rightarrow> 'path b_state state_ops" where
  "builder_ops B =
     \<lparr>so_known_tokens_contains = b_known_tokens_contains,
      so_known_tokens_push = b_known_tokens_push,
      so_get_balance = b_get_balance B,
      so_set_balance = b_set_balance B,
      so_root = b_get_root B\<rparr>"

end
