(* ===== verification/Builder_Recorder.thy ===== *)
theory Builder_Recorder
  imports Builder_State
begin

text \<open>
  What the client's recorder holds while a batch runs: hashes and entries of the state the
  recorder started from. \<open>recorder_inv\<close> is kept by reads, writes and roots; records only grow; an
  index whose key was read is \<open>seen\<close>: the witness has its siblings and its entry.
\<close>

section \<open>One recorded hash, one recorded access\<close>

definition initial_hash :: "tree_witness \<Rightarrow> tree_index \<Rightarrow> hash" where
  "initial_hash tw n = (case bt_get (initial_hashes tw) n of Some h \<Rightarrow> h | None \<Rightarrow> EMPTY_HASH)"

lemma record_hash:
  "initial_hashes (snd (record_witness_hash m n tw)) = initial_hashes tw"
  "fst (record_witness_hash m n tw) = get_hash m n"
  "bt_get (tw_witness (snd (record_witness_hash m n tw))) x =
     (if x = n \<and> get_hash m n \<noteq> EMPTY_HASH \<and> initial_hash tw n \<noteq> EMPTY_HASH then Some (initial_hash tw n)
      else bt_get (tw_witness tw) x)"
  "bt_ok (tw_witness tw) \<Longrightarrow> bt_ok (tw_witness (snd (record_witness_hash m n tw)))"
  by (auto simp: record_witness_hash_def initial_hash_def Let_def)

lemma record_step_node:
  assumes "l < 15"
  shows "record_access_step m l (of_nat (unat ix div 2 ^ l), of_nat (level_offset l), tw) =
    (of_nat (unat (ix :: tree_index) div 2 ^ Suc l), of_nat (level_offset (Suc l)),
     snd (record_witness_hash m (sibling l (unat ix div 2 ^ l)) tw))"
  by (cases "even (unat ix div 2 ^ l)")
    (simp_all only: record_access_step.simps node_word at_half at_parity offset_Suc_word [OF assms]
      node_add_1 node_minus_1 sibling_def Let_def if_True if_False simp_thms)

fun record_upto :: "merkle_tree \<Rightarrow> nat \<Rightarrow> nat \<Rightarrow> tree_witness \<Rightarrow> tree_witness" where
  "record_upto m i 0 tw = tw"
| "record_upto m i (Suc l) tw =
     snd (record_witness_hash m (sibling l (i div 2 ^ l)) (record_upto m i l tw))"

lemma record_loop:
  "l \<le> 15 \<Longrightarrow> fold (record_access_step m) [0..<l] (ix, 0, tw) =
     (of_nat (unat ix div 2 ^ l), of_nat (level_offset l), record_upto m (unat ix) l tw)"
proof (induction l)
  case (Suc l)
  then show ?case
    by (simp add: record_step_node del: record_access_step.simps power_Suc)
qed simp

lemma record_witness_access_eq: "record_witness_access m ix tw = record_upto m (unat ix) 15 tw"
  by (simp add: record_witness_access_def TREE_DEPTH_def record_loop)

lemma record_upto_gets:
  "initial_hashes (record_upto m i l tw) = initial_hashes tw"
  "bt_get (tw_witness (record_upto m i l tw)) n =
     (if (\<exists>j<l. n = sibling j (i div 2 ^ j)) \<and> get_hash m n \<noteq> EMPTY_HASH \<and> initial_hash tw n \<noteq> EMPTY_HASH
      then Some (initial_hash tw n) else bt_get (tw_witness tw) n)"
  "bt_ok (tw_witness tw) \<Longrightarrow> bt_ok (tw_witness (record_upto m i l tw))"
proof -
  show ini: "initial_hashes (record_upto m i l tw) = initial_hashes tw" for l
    by (induction l) (simp_all add: record_hash)
  then have same: "initial_hash (record_upto m i l tw) n = initial_hash tw n" for l n
    by (simp add: initial_hash_def)
  show "bt_get (tw_witness (record_upto m i l tw)) n =
     (if (\<exists>j<l. n = sibling j (i div 2 ^ j)) \<and> get_hash m n \<noteq> EMPTY_HASH \<and> initial_hash tw n \<noteq> EMPTY_HASH
      then Some (initial_hash tw n) else bt_get (tw_witness tw) n)"
    by (induction l) (auto simp: record_hash same less_Suc_eq)
  show "bt_ok (tw_witness tw) \<Longrightarrow> bt_ok (tw_witness (record_upto m i l tw))"
    by (induction l) (simp_all add: record_hash)
qed

lemma record_access:
  "initial_hashes (record_witness_access m ix tw) = initial_hashes tw"
  "bt_get (tw_witness (record_witness_access m ix tw)) n =
     (if n \<in> sibling_nodes ix \<and> get_hash m n \<noteq> EMPTY_HASH \<and> initial_hash tw n \<noteq> EMPTY_HASH
      then Some (initial_hash tw n) else bt_get (tw_witness tw) n)"
  "bt_ok (tw_witness tw) \<Longrightarrow> bt_ok (tw_witness (record_witness_access m ix tw))"
  by (auto simp: record_witness_access_eq record_upto_gets sibling_nodes_def)

section \<open>The invariant\<close>

abbreviation recorded :: "b_state_tree \<Rightarrow> tree_index set" where
  "recorded b \<equiv> dom (bt_get (tw_witness (bt_tree_witness b)))"

abbreviation recorded_keys :: "b_state_tree \<Rightarrow> bytes set" where
  "recorded_keys b \<equiv> dom (bt_get (key_values_witness b))"

definition accessed :: "state_tree \<Rightarrow> tree_index \<Rightarrow> b_state_tree \<Rightarrow> bool" where
  "accessed s0 ix b \<longleftrightarrow> (\<forall>n \<in> sibling_nodes ix. get_hash (tree s0) n \<noteq> EMPTY_HASH \<longrightarrow> n \<in> recorded b)"

definition seen_index :: "state_tree \<Rightarrow> tree_index \<Rightarrow> b_state_tree \<Rightarrow> bool" where
  "seen_index s0 ix b \<longleftrightarrow> accessed s0 ix b \<and>
     (\<forall>kv. bt_get (key_values s0) ix = Some kv \<longrightarrow> kv_key kv \<in> recorded_keys b)"

definition grows :: "b_state_tree \<Rightarrow> b_state_tree \<Rightarrow> bool" where
  "grows b b' \<longleftrightarrow> recorded b \<subseteq> recorded b' \<and> recorded_keys b \<subseteq> recorded_keys b'"

text \<open>\<open>s0\<close> is the store the recorder started from.\<close>

definition recorder_inv :: "hasher \<Rightarrow> state_tree \<Rightarrow> b_state_tree \<Rightarrow> bool" where
  "recorder_inv B s0 b \<longleftrightarrow>
     initial_hashes (bt_tree_witness b) = hashes (tree s0) \<and>
     bt_ok (tw_witness (bt_tree_witness b)) \<and> bt_ok (key_values_witness b) \<and>
     (\<forall>n h. bt_get (tw_witness (bt_tree_witness b)) n = Some h \<longrightarrow> h = get_hash (tree s0) n) \<and>
     (\<forall>n. get_hash (tree s0) n \<noteq> EMPTY_HASH \<longrightarrow> get_hash (tree (bt_state b)) n \<noteq> EMPTY_HASH) \<and>
     (\<forall>ix kv. bt_get (key_values s0) ix = Some kv \<longrightarrow>
        (\<exists>kv'. bt_get (key_values (bt_state b)) ix = Some kv' \<and> kv_key kv' = kv_key kv)) \<and>
     (\<forall>ix kv. bt_get (key_values (bt_state b)) ix = Some kv \<longrightarrow> tree_index_from_key B (kv_key kv) = ix) \<and>
     (\<forall>k \<in> recorded_keys b. accessed s0 (tree_index_from_key B k) b)"

lemma recorder_inv_initial:
  "recorder_inv B s0 b \<Longrightarrow> initial_hash (bt_tree_witness b) n = get_hash (tree s0) n"
  by (simp add: recorder_inv_def initial_hash_def get_hash_def)

lemma accessed_grows: "grows b b' \<Longrightarrow> accessed s0 ix b \<Longrightarrow> accessed s0 ix b'"
  unfolding grows_def accessed_def by blast

lemma seen_grows: "grows b b' \<Longrightarrow> seen_index s0 ix b \<Longrightarrow> seen_index s0 ix b'"
  unfolding seen_index_def grows_def accessed_def by blast

lemma grows_refl [simp]: "grows b b"
  by (simp add: grows_def)

lemma grows_trans: "grows b b' \<Longrightarrow> grows b' b'' \<Longrightarrow> grows b b''"
  unfolding grows_def by blast

section \<open>The operations\<close>

definition access :: "tree_index \<Rightarrow> b_state_tree \<Rightarrow> b_state_tree" where
  "access ix b = b\<lparr>bt_tree_witness := record_witness_access (tree (bt_state b)) ix (bt_tree_witness b)\<rparr>"

lemma access_simps [simp]:
  "bt_state (access ix b) = bt_state b" "key_values_witness (access ix b) = key_values_witness b"
  "bt_tree_witness (access ix b) = record_witness_access (tree (bt_state b)) ix (bt_tree_witness b)"
  by (simp_all add: access_def)

lemma access_grows: "grows b (access ix b)"
  by (auto simp: grows_def record_access)

lemma access_accessed:
  assumes "recorder_inv B s0 b"
  shows "accessed s0 ix (access ix b)"
  using assms recorder_inv_initial [OF assms]
  by (auto simp: accessed_def record_access recorder_inv_def dom_def)

lemma access_inv:
  assumes "recorder_inv B s0 b"
  shows "recorder_inv B s0 (access ix b)"
proof -
  have "accessed s0 (tree_index_from_key B k) (access ix b)" if "k \<in> recorded_keys b" for k
    using assms that accessed_grows [OF access_grows] by (auto simp: recorder_inv_def)
  then show ?thesis
    using assms recorder_inv_initial [OF assms]
    by (auto simp: recorder_inv_def record_access dom_def split: if_splits)
qed

definition note_entry :: "key_value \<Rightarrow> b_state_tree \<Rightarrow> b_state_tree" where
  "note_entry kv b =
     (if bt_get (key_values_witness b) (kv_key kv) = None
      then b\<lparr>key_values_witness := bt_insert (kv_key kv) (kv_value kv) (key_values_witness b)\<rparr> else b)"

lemma note_entry_simps [simp]:
  "bt_state (note_entry kv b) = bt_state b" "bt_tree_witness (note_entry kv b) = bt_tree_witness b"
  "recorded_keys (note_entry kv b) = insert (kv_key kv) (recorded_keys b)"
  by (auto simp: note_entry_def dom_def)

lemma note_entry_inv:
  assumes "recorder_inv B s0 b" "accessed s0 (tree_index_from_key B (kv_key kv)) b"
  shows "recorder_inv B s0 (note_entry kv b)"
proof -
  have "bt_ok (key_values_witness (note_entry kv b))"
    using assms(1) by (simp add: note_entry_def recorder_inv_def)
  moreover have "accessed s0 i (note_entry kv b) = accessed s0 i b" for i
    by (simp add: accessed_def)
  ultimately show ?thesis using assms by (simp add: recorder_inv_def)
qed

lemma bs_get_eq:
  "bs_get B k b =
     (st_get B k (bt_state b),
      let b1 = access (tree_index_from_key B k) b
      in case bt_get (key_values (bt_state b)) (tree_index_from_key B k) of
           None \<Rightarrow> b1 | Some kv \<Rightarrow> note_entry kv b1)"
  by (auto simp: bs_get_def bs_get_value_def access_def note_entry_def st_get_eq Let_def
      split: option.split)

lemma bs_get:
  assumes "recorder_inv B s0 b"
  shows "fst (bs_get B k b) = st_get B k (bt_state b)"
    and "bt_state (snd (bs_get B k b)) = bt_state b"
    and "recorder_inv B s0 (snd (bs_get B k b))"
    and "seen_index s0 (tree_index_from_key B k) (snd (bs_get B k b))"
proof -
  let ?ix = "tree_index_from_key B k" and ?b1 = "access (tree_index_from_key B k) b"
  have b1: "recorder_inv B s0 ?b1" "accessed s0 ?ix ?b1"
    using access_inv [OF assms] access_accessed [OF assms] by auto
  show "fst (bs_get B k b) = st_get B k (bt_state b)" by (simp add: bs_get_eq)
  show "bt_state (snd (bs_get B k b)) = bt_state b"
    by (simp add: bs_get_eq Let_def split: option.split)
  show "recorder_inv B s0 (snd (bs_get B k b))"
  proof (cases "bt_get (key_values (bt_state b)) ?ix")
    case (Some kv)
    then have "tree_index_from_key B (kv_key kv) = ?ix" using assms by (simp add: recorder_inv_def)
    then show ?thesis using Some b1 note_entry_inv [OF b1(1), of kv] by (simp add: bs_get_eq)
  qed (use b1 in \<open>simp add: bs_get_eq\<close>)
  show "seen_index s0 ?ix (snd (bs_get B k b))"
  proof (cases "bt_get (key_values (bt_state b)) ?ix")
    case None
    then have "bt_get (key_values s0) ?ix = None"
      using assms by (auto simp: recorder_inv_def) (metis option.exhaust option.distinct(1))
    then show ?thesis using None b1 by (simp add: seen_index_def bs_get_eq)
  next
    case (Some kv)
    then have "kv_key kv0 = kv_key kv" if "bt_get (key_values s0) ?ix = Some kv0" for kv0
      using assms that by (fastforce simp: recorder_inv_def)
    moreover have "accessed s0 ?ix (note_entry kv ?b1)" using b1(2) by (simp add: accessed_def)
    ultimately show ?thesis using Some by (auto simp: seen_index_def bs_get_eq)
  qed
qed

lemma bs_get_grows: "grows b (snd (bs_get B k b))"
proof -
  have noted: "grows b1 (note_entry kv b1)" for b1 kv by (auto simp: grows_def)
  show ?thesis
    by (auto simp: bs_get_eq Let_def access_grows split: option.split intro: grows_trans [OF access_grows noted])
qed

lemma bs_set_eq:
  "bs_set B k v b =
     (fst (st_set B k v (bt_state b)),
      (access (tree_index_from_key B k) b)\<lparr>bt_state := snd (st_set B k v (bt_state b))\<rparr>)"
  by (simp add: bs_set_def access_def Let_def case_prod_unfold)

lemma bs_set_grows: "grows b (snd (bs_set B k v b))"
  using access_grows [of b] by (simp add: bs_set_eq grows_def)

lemma st_set_nonempty:
  assumes "blake2b_ok B" "blake2b_nonzero B" "get_hash (tree s) n \<noteq> EMPTY_HASH"
  shows "get_hash (tree (snd (st_set B k v s))) n \<noteq> EMPTY_HASH"
proof (cases "fst (st_set B k v s)")
  case True
  let ?ix = "tree_index_from_key B k" and ?h = "kv_merkle_value B \<lparr>kv_value = v, kv_key = k\<rparr>"
  have "length ?h = 32" using assms(1) by simp
  then have h: "?h \<noteq> EMPTY_HASH" "?h \<noteq> []"
    using kv_merkle_value_nonempty [OF assms(2)] by auto
  show ?thesis
    using tree_insert_nonempty [OF assms(2) h(1) assms(1) h(2), of n ?ix]
      tree_insert_other [of n ?ix B ?h "tree s"] assms(3)
    by (cases "n \<in> path_nodes ?ix") (auto simp: st_set_True [OF True])
qed (use assms in \<open>simp add: st_set_False\<close>)

lemma bs_set_inv:
  assumes inv: "recorder_inv B s0 b" and B: "blake2b_ok B" "blake2b_nonzero B"
  shows "recorder_inv B s0 (snd (bs_set B k v b))"
proof -
  let ?ix = "tree_index_from_key B k" and ?s = "snd (st_set B k v (bt_state b))"
  have a: "recorder_inv B s0 (access ?ix b)" by (rule access_inv [OF inv])
  have acc: "accessed s0 i ((access ?ix b)\<lparr>bt_state := ?s\<rparr>) = accessed s0 i (access ?ix b)" for i
    by (simp add: accessed_def)
  have "get_hash (tree ?s) n \<noteq> EMPTY_HASH" if "get_hash (tree s0) n \<noteq> EMPTY_HASH" for n
    using inv that st_set_nonempty [OF B] by (simp add: recorder_inv_def)
  moreover have "\<exists>kv'. bt_get (key_values ?s) ix = Some kv' \<and> kv_key kv' = kv_key kv"
    if kv: "bt_get (key_values s0) ix = Some kv" for ix kv
  proof -
    obtain kv' where kv': "bt_get (key_values (bt_state b)) ix = Some kv'" "kv_key kv' = kv_key kv"
      using inv kv unfolding recorder_inv_def by blast
    show ?thesis
    proof (cases "fst (st_set B k v (bt_state b))")
      case True
      then have "ix = ?ix \<longrightarrow> kv_key kv' = k" using kv'(1) by (auto simp: st_set_ok_iff)
      then show ?thesis using kv' by (simp add: st_set_True [OF True])
    next
      case False
      then show ?thesis using kv' by (simp add: st_set_False)
    qed
  qed
  moreover have "tree_index_from_key B (kv_key kv) = ix" if "bt_get (key_values ?s) ix = Some kv" for ix kv
    using inv that
    by (cases "fst (st_set B k v (bt_state b))")
      (auto simp: st_set_True st_set_False recorder_inv_def split: if_splits)
  ultimately show ?thesis using a by (simp add: bs_set_eq recorder_inv_def acc)
qed

lemma bs_root:
  assumes "recorder_inv B s0 b"
  shows "fst (bs_root b) = st_root (bt_state b)"
    and "bt_state (snd (bs_root b)) = bt_state b"
    and "recorder_inv B s0 (snd (bs_root b))"
    and "grows b (snd (bs_root b))"
    and "get_hash (tree s0) 65534 \<noteq> EMPTY_HASH \<Longrightarrow> 65534 \<in> recorded (snd (bs_root b))"
proof -
  have eq: "bs_root b = (tree_root (tree (bt_state b)),
      b\<lparr>bt_tree_witness := snd (record_witness_hash (tree (bt_state b)) 65534 (bt_tree_witness b))\<rparr>)"
    unfolding bs_root_def tw_root_def TREE_HASHES_root
    by (simp add: case_prod_unfold Let_def record_hash tree_root_eq)
  show "fst (bs_root b) = st_root (bt_state b)" "bt_state (snd (bs_root b)) = bt_state b"
    by (simp_all add: eq st_root_def)
  show g: "grows b (snd (bs_root b))" by (auto simp: eq grows_def record_hash)
  have "accessed s0 (tree_index_from_key B k) (snd (bs_root b))" if "k \<in> recorded_keys b" for k
    using assms that accessed_grows [OF g] by (auto simp: recorder_inv_def)
  then show "recorder_inv B s0 (snd (bs_root b))"
    using assms recorder_inv_initial [OF assms]
    by (auto simp: recorder_inv_def eq record_hash dom_def split: if_splits)
  show "65534 \<in> recorded (snd (bs_root b))" if "get_hash (tree s0) 65534 \<noteq> EMPTY_HASH"
    using that assms recorder_inv_initial [OF assms]
    by (auto simp: eq record_hash recorder_inv_def dom_def)
qed

end
