(* ===== verification/Refinement_Props.thy ===== *)
theory Refinement_Props
  imports Refinement
begin

text \<open>
  The properties of refinement: what an output of the immediate mode stands for, when a payload
  cannot panic, that deferring a batch and importing it gives what executing it at once gives,
  and that the deferred step looks at no signature.
\<close>

section \<open>Lemmas\<close>

text \<open>Execution reads the operations, never the signatures.\<close>

lemma transition_step_operation:
  "transition_step M op = transition_step M \<lparr>operation = operation op, signature = []\<rparr>"
  by (simp add: transition_step_def)

lemma state_transition_unsigned:
  "state_transition M ops s = state_transition M (map (\<lambda>op. \<lparr>operation = operation op, signature = []\<rparr>) ops) s"
proof -
  have "fold_res (transition_step M) ops x =
      fold_res (transition_step M) (map (\<lambda>op. \<lparr>operation = operation op, signature = []\<rparr>) ops) x" for x
    by (simp add: fold_res_map flip: transition_step_operation)
  then show ?thesis by (simp add: state_transition_def)
qed

lemma state_transition_operations:
  assumes "map operation ops = map operation ops'"
  shows "state_transition M ops s = state_transition M ops' s"
proof -
  have "map (\<lambda>op. \<lparr>operation = operation op, signature = []\<rparr>) ops
      = map (\<lambda>o'. \<lparr>operation = o', signature = []\<rparr>) (map operation ops)" for ops
    by (simp add: comp_def)
  then show ?thesis using assms by (metis state_transition_unsigned)
qed

lemma run_batch_operations:
  "map operation ops = map operation ops' \<Longrightarrow> run_batch C ops d es st = run_batch C ops' d es st"
  using state_transition_operations [of ops ops' "merkle_ops (blake2b C)" st]
    map_eq_imp_length_eq [of operation ops operation ops']
  by (simp add: run_batch_def)

text \<open>Entries of a loaded state sit at their keys' indices, and their keys are the witness's.\<close>

definition keys_inv :: "hasher \<Rightarrow> bytes set \<Rightarrow> state \<Rightarrow> bool" where
  "keys_inv B K s \<longleftrightarrow> inj_on (tree_index_from_key B) K \<and>
     (\<forall>ix kv. bt_get (key_values (balances s)) ix = Some kv \<longrightarrow>
        tree_index_from_key B (kv_key kv) = ix \<and> kv_key kv \<in> K)"

lemma key_values_set:
  "bt_get (key_values (snd (st_set B k v s))) ix = Some kv \<Longrightarrow>
     bt_get (key_values s) ix = Some kv \<or> (ix = tree_index_from_key B k \<and> kv_key kv = k)"
  by (cases "fst (st_set B k v s)") (auto simp: st_set_True st_set_False split: if_splits)

lemma load_values_keys:
  "load_values B r kvs s = Some p \<Longrightarrow> bt_get (key_values p) ix = Some kv \<Longrightarrow>
     bt_get (key_values s) ix = Some kv \<or>
     (tree_index_from_key B (kv_key kv) = ix \<and> kv_key kv \<in> fst ` set kvs)"
proof (induction kvs arbitrary: s)
  case (Cons e kvs)
  obtain k v where e: "e = (k, v)" by (cases e)
  show ?case
    using Cons.IH [of "snd (st_set B k v s)"] Cons.prems key_values_set [of B k v s ix kv]
    by (auto simp: e Let_def split: if_splits)
qed simp

lemma from_witness_keys:
  assumes "from_witness B w = Some st" "inj_on (tree_index_from_key B) K"
    "fst ` set (key_value_balances w) \<subseteq> K"
  shows "keys_inv B K st"
  using assms load_values_keys [of B _ "key_value_balances w" "load_hashes (wit_hashes w)"]
  by (force simp: from_witness_def st_init_from_witness_def keys_inv_def Let_def split: option.splits)

lemma keys_inv_set:
  assumes "keys_inv B K s" "k \<in> K"
  shows "fst (st_set B k v (balances s))"
    "keys_inv B K (s\<lparr>balances := snd (st_set B k v (balances s))\<rparr>)"
proof -
  show "fst (st_set B k v (balances s))"
    using assms by (auto simp: st_set_ok_iff keys_inv_def inj_on_def split: option.split)
  show "keys_inv B K (s\<lparr>balances := snd (st_set B k v (balances s))\<rparr>)"
    using assms key_values_set [of B k v "balances s"] by (fastforce simp: keys_inv_def)
qed

interpretation partial: state_ops_total "merkle_ops B" "keys_inv B K"
    "\<lambda>a t. is_bytes 32 a \<and> balance_key t a \<in> K" tokens_of "balance_of B" for B K
proof unfold_locales
  show "balance_of B s' b u = (if b = a \<and> u = t then Some v else balance_of B s b u)"
    if "is_bytes 32 a \<and> balance_key t a \<in> K" "so_set_balance (merkle_ops B) a t v s = Inr s'"
      "is_bytes 32 b \<and> balance_key u b \<in> K" for s a t v s' b u
    using set_balance_bal that by (simp add: merkle_ops_def)
  show "\<exists>s'. so_set_balance (merkle_ops B) a t v s = Inr s'"
    if "keys_inv B K s" "is_bytes 32 a \<and> balance_key t a \<in> K" for s a t v
    using that keys_inv_set(1) by (simp add: merkle_ops_def set_balance_Inr)
  show "keys_inv B K s'"
    if "keys_inv B K s" "is_bytes 32 a \<and> balance_key t a \<in> K"
      "so_set_balance (merkle_ops B) a t v s = Inr s'" for s a t v s'
    using that keys_inv_set(2) by (simp add: merkle_ops_def set_balance_Inr)
qed (auto simp: merkle_ops_def tokens_of_def balance_of_def fun_eq_iff known_tokens_contains_def
    token_contains_iff known_tokens_push_def set_push_token get_balance_def set_balance_Inr
    keys_inv_def)

lemma run_batch_Inr_iff:
  "run_batch C ops d es st = Inr (out, es', xs) \<longleftrightarrow>
     (\<exists>st'. state_transition (merkle_ops (blake2b C)) ops st = Inr st' \<and>
        out = Some (get_root (blake2b C) st, get_root (blake2b C) st', length ops, d) \<and>
        es' = es \<and> xs = [])"
  by (auto simp: run_batch_def bind_res_Inr_iff Let_def)

text \<open>The payload that a run of \<open>Immediate\<close> or \<open>Deferring\<close> executes.\<close>

lemma refine_verified_Some_iff:
  assumes "vk_try_from C (admin C) = Some ak"
  shows "refine_verified C CD H p es = Inr (Some out, es', xs) \<longleftrightarrow>
    (\<exists>w st. deliver_witness CD H (pl_delivery p) (pl_witness p) = Inr (Some w) \<and>
       from_witness (blake2b C) w = Some st \<and> list_all (authorised C ak) (pl_operations p) \<and>
       (case pl_execution p of
          Immediate \<Rightarrow> run_batch C (pl_operations p) (pl_delivery p) es st = Inr (Some out, es', xs)
        | Deferring \<Rightarrow> export_batch C CD H p w (get_root (blake2b C) st) es = Inr (Some out, es', xs)
        | Deferred \<Rightarrow> False))"
proof (cases "deliver_witness CD H (pl_delivery p) (pl_witness p)")
  case (Inr delivered)
  show ?thesis
  proof (cases delivered)
    case (Some w)
    then show ?thesis
      by (cases "from_witness (blake2b C) w")
        (simp_all add: refine_verified_def Inr verify_operations_all [OF assms] Let_def
          split: execution_mode.split)
  qed (simp add: refine_verified_def Inr)
qed (simp add: refine_verified_def)

section \<open>Immediate execution\<close>


text \<open>A codec for the concrete inputs: one payload, whatever the bytes.\<close>

definition demo_codec :: "payload \<Rightarrow> codec" where
  "demo_codec p =
     \<lparr>dec_payload = (\<lambda>_. Some p), dec_witness = (\<lambda>_. None),
      enc_segment = (\<lambda>_. [1]),
      dec_segment = (\<lambda>_. Some \<lparr>seg_operations = pl_operations p, seg_witness = the (pl_witness p)\<rparr>),
      enc_operation = (\<lambda>_. [2])\<rparr>"

definition demo_host :: refine_host where
  "demo_host = \<lparr>extrinsic = (\<lambda>_. None), import_segment = (\<lambda>_. Some [1]), export_slice = (\<lambda>_. Inr 0)\<rparr>"

definition empty_witness :: witness where
  "empty_witness = \<lparr>wit_hashes = [], key_value_balances = [], wit_token_ids = []\<rparr>"

definition demo_payload :: "execution_mode \<Rightarrow> payload" where
  "demo_payload e =
     \<lparr>pl_delivery = Direct, pl_execution = e, pl_operations = demo_batch, pl_witness = Some empty_witness\<rparr>"

definition demo_service_crypto :: crypto where
  "demo_service_crypto = demo_crypto\<lparr>blake2b := demo_hash\<rparr>"

lemma from_empty_witness [simp]: "from_witness B empty_witness = Some empty_state"
  by (simp add: from_witness_def empty_witness_def st_init_from_witness_def load_hashes_def
      bt_extend_def empty_state_def empty_state_tree_def empty_tree_def Let_def)

lemma demo_service_crypto_simps [simp]:
  "blake2b demo_service_crypto = demo_hash"
  "admin demo_service_crypto = admin demo_crypto"
  "vk_try_from demo_service_crypto = vk_try_from demo_crypto"
  "verify_signature demo_service_crypto = verify_signature demo_crypto"
  by (simp_all add: demo_service_crypto_def admin_def admin_keypair_def keypair_from_seed_def
      verify_signature_def signing_message_def fun_eq_iff Let_def)

lemma demo_batch_authorised [simp]:
  "list_all (authorised demo_service_crypto (admin demo_crypto)) demo_batch"
proof -
  have "authorised demo_service_crypto = authorised demo_crypto"
    by (auto simp: authorised_def fun_eq_iff split: operation.split option.split)
  then show ?thesis
    using demo_batch_verified verify_operations_all [of demo_crypto "admin demo_crypto" demo_batch]
    by simp
qed

lemma length_demo_batch: "length demo_batch = 2"
  by (simp add: demo_batch_def)




text \<open>
  C33. The assertions of the delivery fail on what a client can send: a direct payload without a
  witness, or an extrinsic payload with one, panics before anything is verified.
\<close>

theorem misdelivered_payload_panics:
  assumes "dec_payload CD payload = Some p" "pl_execution p \<noteq> Deferred"
    and "pl_delivery p = Direct \<longleftrightarrow> pl_witness p = None"
  shows "service_refine C CD H payload = Inl AssertFailed"
proof -
  have "deliver_witness CD H (pl_delivery p) (pl_witness p) = Inl AssertFailed"
    using assms(3) by (cases "pl_delivery p") (auto simp: deliver_witness_def)
  then show ?thesis
    using assms(1,2) by (cases "pl_execution p")
      (simp_all add: service_refine_def refine_payload_def refine_transition_def refine_verified_def)
qed

theorem misdelivered_payload_panics_witness:
  "service_refine demo_service_crypto (demo_codec (demo_payload Immediate\<lparr>pl_delivery := Extrinsic\<rparr>))
     demo_host [] = Inl AssertFailed"
  by (rule misdelivered_payload_panics [where p = "demo_payload Immediate\<lparr>pl_delivery := Extrinsic\<rparr>"])
    (simp_all add: demo_codec_def demo_payload_def)

section \<open>Deferred execution\<close>

text \<open>The output of a run under another delivery label.\<close>

definition relabel :: "delivery_mode \<Rightarrow> refine_run \<Rightarrow> refine_run" where
  "relabel d run = bind_res run (\<lambda>(out, es, exports).
     Inr (map_option (\<lambda>(r, r', n, _). (r, r', n, d)) out, es, exports))"

lemma relabel_run_batch: "relabel d (run_batch C ops d' es st) = run_batch C ops d es st"
  by (cases "state_transition (merkle_ops (blake2b C)) ops st")
    (simp_all add: relabel_def run_batch_def Let_def)

lemma export_batch_Some_iff:
  "export_batch C CD H p w r es = Inr (Some out, es', exports) \<longleftrightarrow>
     (let seg = enc_segment CD \<lparr>seg_operations = pl_operations p, seg_witness = w\<rparr>
      in \<not> isl (export_slice H seg) \<and> out = (r, r, length (pl_operations p), pl_delivery p) \<and>
         es' = es @ [hash_multiple (blake2b C) [seg]] \<and> exports = [seg])"
  by (auto simp: export_batch_def Let_def split: sum.split api_error.split)

text \<open>
  C14. Deferring is transparent: a deferring run reports no change of root and exports one segment;
  a deferred run that imports that segment, padded or not, does what the immediate run of the
  same payload does, up to the delivery label of its output.
\<close>

theorem deferred_matches_immediate:
  assumes "dec_payload CD payload = Some p" "pl_execution p = Deferring"
    and "dec_payload CD payload1 = Some (p\<lparr>pl_execution := Immediate\<rparr>)"
    and "dec_payload CD payload2 = Some q" "pl_execution q = Deferred"
    and "vk_try_from C (admin C) = Some admin_key"
    and run: "refine_transition C CD H payload es = Inr (Some out, es', [seg])"
    and "import_segment H2 0 = Some (seg @ pad)"
    and codec: "\<forall>w. deliver_witness CD H (pl_delivery p) (pl_witness p) = Inr (Some w) \<longrightarrow>
          dec_segment CD (enc_segment CD \<lparr>seg_operations = pl_operations p, seg_witness = w\<rparr> @ pad)
            = Some \<lparr>seg_operations = pl_operations p, seg_witness = w\<rparr>"
  shows "fst out = fst (snd out) \<and> es' = es @ [hash_multiple (blake2b C) [seg]] \<and>
    refine_transition C CD H2 payload2 es2 =
      relabel (pl_delivery q) (refine_transition C CD H payload1 es2)"
proof -
  have "refine_verified C CD H p es = Inr (Some out, es', [seg])"
    using run assms(1,2) by (simp add: refine_transition_def)
  then obtain w st where w: "deliver_witness CD H (pl_delivery p) (pl_witness p) = Inr (Some w)"
    and st: "from_witness (blake2b C) w = Some st" and ok: "list_all (authorised C admin_key) (pl_operations p)"
    and ex: "export_batch C CD H p w (get_root (blake2b C) st) es = Inr (Some out, es', [seg])"
    by (auto simp: refine_verified_Some_iff [OF assms(6)] assms(2))
  have seg: "seg = enc_segment CD \<lparr>seg_operations = pl_operations p, seg_witness = w\<rparr>"
    using ex by (simp add: export_batch_Some_iff Let_def)
  have now: "refine_transition C CD H payload1 es2
      = run_batch C (pl_operations p) (pl_delivery p) es2 st"
    using w st ok
    by (simp add: refine_transition_def assms(3) refine_verified_def verify_operations_all [OF assms(6)] Let_def)
  have later: "refine_transition C CD H2 payload2 es2
      = run_batch C (pl_operations p) (pl_delivery q) es2 st"
    using codec w st seg assms(8)
    by (simp add: refine_transition_def assms(4,5) refine_deferred_def)
  show ?thesis
    using ex unfolding now later relabel_run_batch by (auto simp: export_batch_Some_iff Let_def)
qed

definition demo_mode_codec :: codec where
  "demo_mode_codec = (demo_codec (demo_payload Immediate))
     \<lparr>dec_payload := (\<lambda>b. Some (demo_payload
        (if b = [0] then Immediate else if b = [1] then Deferring else Deferred)))\<rparr>"

theorem deferred_matches_immediate_witness:
  "refine_transition demo_service_crypto demo_mode_codec demo_host [2] [] =
     relabel Direct (refine_transition demo_service_crypto demo_mode_codec demo_host [0] [])"
proof -
  let ?p = "demo_payload Deferring"
  have codec: "dec_payload demo_mode_codec [1] = Some ?p"
    "dec_payload demo_mode_codec [0] = Some (?p\<lparr>pl_execution := Immediate\<rparr>)"
    "dec_payload demo_mode_codec [2] = Some (demo_payload Deferred)"
    by (simp_all add: demo_mode_codec_def demo_payload_def)
  have admin: "vk_try_from demo_service_crypto (admin demo_service_crypto) = Some (admin demo_crypto)"
    by simp
  have witness: "deliver_witness CD H (pl_delivery ?p) (pl_witness ?p) = Inr (Some empty_witness)" for CD H
    by (simp add: demo_payload_def deliver_witness_def)
  have run: "refine_transition demo_service_crypto demo_mode_codec demo_host [1] [] =
      Inr (Some (get_root demo_hash empty_state, get_root demo_hash empty_state, 2, Direct),
           [] @ [hash_multiple (blake2b demo_service_crypto) [[1]]], [[1]])"
    using witness
    by (simp add: refine_transition_def codec refine_verified_def verify_operations_all [OF admin]
        demo_payload_def Let_def length_demo_batch)
      (simp add: export_batch_def demo_mode_codec_def demo_codec_def demo_host_def length_demo_batch Let_def)
  have "refine_transition demo_service_crypto demo_mode_codec demo_host [2] [] =
      relabel (pl_delivery (demo_payload Deferred))
        (refine_transition demo_service_crypto demo_mode_codec demo_host [0] [])"
  proof (rule deferred_matches_immediate [OF codec(1) _ codec(2,3) _ admin run, THEN conjunct2, THEN conjunct2])
    show "import_segment demo_host 0 = Some ([1] @ [])" by (simp add: demo_host_def)
    show "\<forall>w. deliver_witness demo_mode_codec demo_host (pl_delivery ?p) (pl_witness ?p) = Inr (Some w) \<longrightarrow>
        dec_segment demo_mode_codec
          (enc_segment demo_mode_codec \<lparr>seg_operations = pl_operations ?p, seg_witness = w\<rparr> @ [])
          = Some \<lparr>seg_operations = pl_operations ?p, seg_witness = w\<rparr>"
      by (simp add: witness) (simp add: demo_mode_codec_def demo_codec_def demo_payload_def)
  qed (simp_all add: demo_payload_def)
  then show ?thesis by (simp add: demo_payload_def)
qed

text \<open>
  C32. The deferred step executes whatever it imports: it checks no signature, so replacing every
  signature of the segment's batch by another gives the same output.
\<close>

theorem deferred_ignores_signatures:
  assumes "dec_payload CD payload = Some q" "pl_execution q = Deferred"
    and "import_segment H 0 = Some seg" "dec_segment CD seg = Some sd"
    and "import_segment H' 0 = Some seg'" "dec_segment CD seg' = Some sd'"
    and "map operation (seg_operations sd) = map operation (seg_operations sd')"
    and "seg_witness sd = seg_witness sd'"
  shows "refine_transition C CD H payload es = refine_transition C CD H' payload es"
  using assms run_batch_operations [OF assms(7)]
  by (simp add: refine_transition_def refine_deferred_def split: option.split)

text \<open>The segments \<open>[0]\<close> and \<open>[1]\<close>: the batch with and without its signatures.\<close>

definition demo_unsigned_codec :: codec where
  "demo_unsigned_codec = (demo_codec (demo_payload Deferred))
     \<lparr>dec_segment := (\<lambda>b. Some
        \<lparr>seg_operations = (if b = [0] then demo_batch
           else map (\<lambda>op. \<lparr>operation = operation op, signature = []\<rparr>) demo_batch),
         seg_witness = empty_witness\<rparr>)\<rparr>"

theorem deferred_ignores_signatures_witness:
  "refine_transition demo_service_crypto demo_unsigned_codec (demo_host\<lparr>import_segment := (\<lambda>_. Some [0])\<rparr>) [] [] =
   refine_transition demo_service_crypto demo_unsigned_codec (demo_host\<lparr>import_segment := (\<lambda>_. Some [1])\<rparr>) [] []"
  by (rule deferred_ignores_signatures [where q = "demo_payload Deferred" and seg = "[0]" and seg' = "[1]" and
        sd = "\<lparr>seg_operations = demo_batch, seg_witness = empty_witness\<rparr>" and
        sd' = "\<lparr>seg_operations = map (\<lambda>op. \<lparr>operation = operation op, signature = []\<rparr>) demo_batch,
                 seg_witness = empty_witness\<rparr>"])
    (simp_all add: demo_unsigned_codec_def demo_codec_def demo_payload_def comp_def)

end
