(* ===== verification/Builder_Agreement.thy ===== *)
theory Builder_Agreement
  imports Builder_Recorder Refinement_Props
begin

text \<open>
  The client and the service agree: the witness that the client takes after running a batch loads
  on the service, and the service's run of the same batch on it starts and ends with the client's
  roots. The exception the code has is the hypothesis \<open>recorded_initial\<close>: no entry that the batch
  itself created may have been read again before the witness was taken.
\<close>

section \<open>The client's state as the shared state\<close>

definition shared_state :: "'path b_state \<Rightarrow> state" where
  "shared_state b =
     \<lparr>balances = bt_state (b_balances b), known_tokens = bk_merkle (b_known_tokens b)\<rparr>"

text \<open>A state whose recorder has just been reset.\<close>

definition fresh_recorder :: "'path b_state \<Rightarrow> bool" where
  "fresh_recorder b \<longleftrightarrow>
     initial_hashes (bt_tree_witness (b_balances b)) = hashes (tree (bt_state (b_balances b))) \<and>
     tw_witness (bt_tree_witness (b_balances b)) = [] \<and>
     key_values_witness (b_balances b) = [] \<and>
     bk_witness (b_known_tokens b) = token_ids (bk_merkle (b_known_tokens b))"

lemma fresh_recorder_inv:
  assumes "fresh_recorder b" "store_ok B (balances (shared_state b))"
  shows "recorder_inv B (balances (shared_state b)) (b_balances b)"
  using assms by (auto simp: fresh_recorder_def shared_state_def recorder_inv_def store_ok_def)

lemma take_witness_fresh: "fresh_recorder (snd (take_witness b))"
  by (simp add: take_witness_def bs_take_witness_def bk_take_witness_def fresh_recorder_def Let_def)

lemma take_witness_shared [simp]: "shared_state (snd (take_witness b)) = shared_state b"
  by (simp add: take_witness_def bs_take_witness_def bk_take_witness_def shared_state_def Let_def)

lemma take_witness_fields [simp]:
  "wit_hashes (fst (take_witness b)) = tw_witness (bt_tree_witness (b_balances b))"
  "key_value_balances (fst (take_witness b)) = key_values_witness (b_balances b)"
  "wit_token_ids (fst (take_witness b)) = bk_witness (b_known_tokens b)"
  by (simp_all add: take_witness_def bs_take_witness_def bk_take_witness_def Let_def)

lemma b_get_root_root: "fst (b_get_root B b) = get_root B (shared_state b)"
proof -
  have "fst (bs_root x) = st_root (bt_state x)" for x
    by (simp add: bs_root_def tw_root_def case_prod_unfold Let_def record_hash st_root_def tree_root_def)
  then show ?thesis by (simp add: b_get_root_def case_prod_unfold Let_def get_root_def shared_state_def)
qed

section \<open>The contract of StateOps\<close>

text \<open>The client's methods keep the contract too: what they record is not part of the content.\<close>

definition client_inv :: "hasher \<Rightarrow> bytes set \<Rightarrow> 'path b_state \<Rightarrow> bool" where
  "client_inv B K b \<longleftrightarrow>
     merkle_inv B K (shared_state b) \<and> recorded_keys (b_balances b) \<subseteq> K"

lemma bs_get_content:
  "fst (bs_get B k b) = st_get B k (bt_state b)"
  "bt_state (snd (bs_get B k b)) = bt_state b"
  "recorded_keys (snd (bs_get B k b)) =
     recorded_keys b \<union>
     (case bt_get (key_values (bt_state b)) (tree_index_from_key B k) of None \<Rightarrow> {} | Some kv \<Rightarrow> {kv_key kv})"
  by (simp_all add: bs_get_eq Let_def split: option.split)

lemma builder_get:
  "fst (so_get_balance (builder_ops B) a t b) = get_balance B a t (shared_state b)"
  "shared_state (snd (so_get_balance (builder_ops B) a t b)) = shared_state b"
  "b_balances (snd (so_get_balance (builder_ops B) a t b)) = snd (bs_get B (balance_key t a) (b_balances b))"
  by (simp_all add: builder_ops_def b_get_balance_def get_balance_def shared_state_def Let_def
      case_prod_unfold bs_get_content)

lemma builder_set:
  assumes "so_set_balance (builder_ops B) a t v b = Inr b'"
  shows "set_balance B a t v (shared_state b) = Inr (shared_state b')"
    and "recorded_keys (b_balances b') = recorded_keys (b_balances b)"
  using assms
  by (auto simp: builder_ops_def b_set_balance_def Let_def case_prod_unfold bs_set_eq set_balance_Inr
      shared_state_def split: if_splits)

lemma builder_set_total:
  "set_balance B a t v (shared_state b) = Inr s' \<Longrightarrow> \<exists>b'. so_set_balance (builder_ops B) a t v b = Inr b'"
  by (auto simp: builder_ops_def b_set_balance_def Let_def case_prod_unfold bs_set_eq set_balance_Inr
      shared_state_def)

lemma builder_push:
  "shared_state (so_known_tokens_push (builder_ops B) t b) = known_tokens_push t (shared_state b)"
  "b_balances (so_known_tokens_push (builder_ops B) t b) = b_balances b"
  by (simp_all add: builder_ops_def b_known_tokens_push_def known_tokens_push_def shared_state_def)

lemma builder_contains:
  "so_known_tokens_contains (builder_ops B) t b = known_tokens_contains t (shared_state b)"
  by (simp add: builder_ops_def b_known_tokens_contains_def known_tokens_contains_def shared_state_def)

interpretation client_total: state_ops_total "builder_ops B" "client_inv B K"
    "\<lambda>a t. is_bytes 32 a \<and> balance_key t a \<in> K" "\<lambda>b. tokens_of (shared_state b)"
    "\<lambda>b. balance_of B (shared_state b)" for B K
proof unfold_locales
  fix b :: "'a b_state" and a t
  assume inv: "client_inv B K b" and slot: "is_bytes 32 a \<and> balance_key t a \<in> K"
  have "kv_key kv \<in> K" if "bt_get (key_values (bt_state (b_balances b))) ix = Some kv" for ix kv
    using inv that by (simp add: client_inv_def merkle_inv_def shared_state_def)
  then show "client_inv B K (snd (so_get_balance (builder_ops B) a t b))"
    using inv by (auto simp: client_inv_def builder_get bs_get_content split: option.split)
  show "\<exists>b'. so_set_balance (builder_ops B) a t v b = Inr b'" for v
  proof -
    have "fst (st_set B (balance_key t a) v (balances (shared_state b)))"
      using inv slot by (intro merkle_inv_set_ok) (auto simp: client_inv_def)
    then show ?thesis by (intro builder_set_total) (simp add: set_balance_Inr)
  qed
  fix v b'
  assume set: "so_set_balance (builder_ops B) a t v b = Inr b'"
  note shared = builder_set [OF set]
  show "client_inv B K b'"
    using inv slot shared merkle_inv_set [of B K "shared_state b" "balance_key t a" v]
    by (auto simp: client_inv_def set_balance_Inr)
  show "tokens_of (shared_state b') = tokens_of (shared_state b)"
    using shared(1) by (auto simp: set_balance_Inr tokens_of_def)
  show "balance_of B (shared_state b') c u =
      (if c = a \<and> u = t then Some v else balance_of B (shared_state b) c u)"
    if "is_bytes 32 c \<and> balance_key u c \<in> K" for c u
    using set_balance_bal [OF shared(1)] slot that by blast
qed (auto simp: builder_contains builder_push builder_get known_tokens_contains_def token_contains_iff
    tokens_of_def known_tokens_push_def set_push_token client_inv_def merkle_inv_def
    balance_of_def get_balance_def fun_eq_iff)

section \<open>A run of the client followed by the service\<close>

text \<open>
  \<open>N\<close>: the nodes the final witness \<open>f\<close> knows, because it recorded them or because they are empty in
  \<open>s0\<close>. \<open>I\<close>: the indices whose siblings and entries it knows.
\<close>

definition known_nodes :: "state_tree \<Rightarrow> b_state_tree \<Rightarrow> tree_index set" where
  "known_nodes s0 f = {n. get_hash (tree s0) n = EMPTY_HASH} \<union> recorded f"

definition known_indices :: "state_tree \<Rightarrow> b_state_tree \<Rightarrow> tree_index set" where
  "known_indices s0 f = {ix. seen_index s0 ix f}"

definition follow_rel ::
    "hasher \<Rightarrow> state_tree \<Rightarrow> b_state_tree \<Rightarrow> 'path b_state \<Rightarrow> state \<Rightarrow> bool" where
  "follow_rel B s0 f b p \<longleftrightarrow>
     recorder_inv B s0 (b_balances b) \<and>
     state_covers (known_nodes s0 f) (known_indices s0 f) p (shared_state b)"

lemma known_final:
  "grows b f \<Longrightarrow> seen_index s0 ix b \<Longrightarrow> ix \<in> known_indices s0 f"
  by (simp add: known_indices_def seen_grows)

text \<open>The client's run does to the shared state what the service's methods do, and keeps its records.\<close>

definition shared_rel :: "hasher \<Rightarrow> state_tree \<Rightarrow> token_id list \<Rightarrow> 'path b_state \<Rightarrow> state \<Rightarrow> bool" where
  "shared_rel B s0 ids b s \<longleftrightarrow>
     recorder_inv B s0 (b_balances b) \<and> bk_witness (b_known_tokens b) = ids \<and> s = shared_state b"

locale client_run =
  fixes B :: hasher and s0 :: state_tree and f :: b_state_tree and ids :: "token_id list"
  assumes B_ok: "blake2b_ok B" and B_nonzero: "blake2b_nonzero B"

sublocale client_run \<subseteq> shared: state_ops_sim "builder_ops B" "merkle_ops B" "shared_rel B s0 ids"
    "\<lambda>_. True" "\<lambda>_ _ _. True"
proof unfold_locales
  fix x :: "'a b_state" and y t
  assume "shared_rel B s0 ids x y"
  then show "so_known_tokens_contains (builder_ops B) t x = so_known_tokens_contains (merkle_ops B) t y"
    and "shared_rel B s0 ids (so_known_tokens_push (builder_ops B) t x) (so_known_tokens_push (merkle_ops B) t y)"
    by (simp_all add: builder_ops_def merkle_ops_def shared_rel_def shared_state_def
        b_known_tokens_contains_def known_tokens_contains_def b_known_tokens_push_def known_tokens_push_def)
next
  fix x :: "'a b_state" and y a t
  assume r: "shared_rel B s0 ids x y"
  then have inv: "recorder_inv B s0 (b_balances x)" by (simp add: shared_rel_def)
  show "fst (so_get_balance (builder_ops B) a t x) = fst (so_get_balance (merkle_ops B) a t y) \<and>
      shared_rel B s0 ids (snd (so_get_balance (builder_ops B) a t x)) (snd (so_get_balance (merkle_ops B) a t y))"
    using r bs_get [OF inv, of "balance_key t a"]
    by (simp add: builder_ops_def merkle_ops_def b_get_balance_def get_balance_def shared_rel_def
        shared_state_def Let_def case_prod_unfold)
next
  fix x x' :: "'a b_state" and y a t v
  assume set: "so_set_balance (builder_ops B) a t v x = Inr x'" and r: "shared_rel B s0 ids x y"
  show "\<exists>y'. so_set_balance (merkle_ops B) a t v y = Inr y' \<and> shared_rel B s0 ids x' y'"
    using set r bs_set_inv [OF _ B_ok B_nonzero, of s0 "b_balances x" "balance_key t a" v]
    by (auto simp: builder_ops_def merkle_ops_def b_set_balance_def set_balance_Inr shared_rel_def
        shared_state_def Let_def case_prod_unfold bs_set_eq split: if_splits)
qed simp_all

sublocale client_run \<subseteq> service: state_ops_sim "builder_ops B" "merkle_ops B" "follow_rel B s0 f"
    "\<lambda>b. grows (b_balances b) f"
    "\<lambda>a t b. seen_index s0 (tree_index_from_key B (balance_key t a)) (b_balances b)"
proof unfold_locales
  fix x :: "'a b_state" and y t
  assume "follow_rel B s0 f x y"
  then show "so_known_tokens_contains (builder_ops B) t x = so_known_tokens_contains (merkle_ops B) t y"
    and "follow_rel B s0 f (so_known_tokens_push (builder_ops B) t x) (so_known_tokens_push (merkle_ops B) t y)"
    by (simp_all add: builder_ops_def merkle_ops_def follow_rel_def state_covers_def shared_state_def
        b_known_tokens_contains_def known_tokens_contains_def b_known_tokens_push_def known_tokens_push_def)
next
  fix x :: "'a b_state" and t
  show "grows (b_balances (so_known_tokens_push (builder_ops B) t x)) f \<Longrightarrow> grows (b_balances x) f"
    by (simp add: builder_ops_def b_known_tokens_push_def)
next
  fix x :: "'a b_state" and a t
  let ?x = "snd (so_get_balance (builder_ops B) a t x)"
  have bal: "b_balances ?x = snd (bs_get B (balance_key t a) (b_balances x))"
    and tok: "b_known_tokens ?x = b_known_tokens x"
    and out: "fst (so_get_balance (builder_ops B) a t x) = fst (bs_get B (balance_key t a) (b_balances x))"
    by (simp_all add: builder_ops_def b_get_balance_def Let_def case_prod_unfold)
  have g: "grows (b_balances x) (b_balances ?x)" unfolding bal by (rule bs_get_grows)
  show "grows (b_balances ?x) f \<Longrightarrow> grows (b_balances x) f"
    using g by (rule grows_trans)
  show "seen_index s0 (tree_index_from_key B (balance_key u b)) (b_balances x) \<Longrightarrow>
      seen_index s0 (tree_index_from_key B (balance_key u b)) (b_balances ?x)" for b u
    using g by (rule seen_grows)
  fix y
  assume r: "follow_rel B s0 f x y"
  then have inv: "recorder_inv B s0 (b_balances x)" by (simp add: follow_rel_def)
  show seen: "seen_index s0 (tree_index_from_key B (balance_key t a)) (b_balances ?x)"
    unfolding bal by (rule bs_get(4) [OF inv])
  assume "grows (b_balances ?x) f"
  then have ix: "tree_index_from_key B (balance_key t a) \<in> known_indices s0 f"
    using seen by (rule known_final)
  have same: "shared_state ?x = shared_state x" by (simp add: shared_state_def bal tok bs_get(2) [OF inv])
  have "st_get B (balance_key t a) (balances y) = st_get B (balance_key t a) (bt_state (b_balances x))"
    using r covers_get ix by (simp add: follow_rel_def state_covers_def shared_state_def) blast
  then show "fst (so_get_balance (builder_ops B) a t x) = fst (so_get_balance (merkle_ops B) a t y) \<and>
      follow_rel B s0 f ?x (snd (so_get_balance (merkle_ops B) a t y))"
    using r same by (simp add: out bs_get(1) [OF inv] merkle_ops_def get_balance_def Let_def)
      (simp add: follow_rel_def bal bs_get(3) [OF inv])
next
  fix x x' :: "'a b_state" and a t v
  let ?k = "balance_key t a"
  assume set: "so_set_balance (builder_ops B) a t v x = Inr x'"
  then have ok: "fst (st_set B ?k v (bt_state (b_balances x)))"
    and bal: "b_balances x' = snd (bs_set B ?k v (b_balances x))"
    and tok: "b_known_tokens x' = b_known_tokens x"
    by (auto simp: builder_ops_def b_set_balance_def Let_def case_prod_unfold bs_set_eq split: if_splits)
  have g: "grows (b_balances x) (b_balances x')" unfolding bal by (rule bs_set_grows)
  show "grows (b_balances x') f \<Longrightarrow> grows (b_balances x) f"
    using g by (rule grows_trans)
  show "seen_index s0 (tree_index_from_key B (balance_key u b)) (b_balances x) \<Longrightarrow>
      seen_index s0 (tree_index_from_key B (balance_key u b)) (b_balances x')" for b u
    using g by (rule seen_grows)
  fix y
  assume fin: "grows (b_balances x') f" and seen: "seen_index s0 (tree_index_from_key B ?k) (b_balances x)"
    and r: "follow_rel B s0 f x y"
  have ix: "tree_index_from_key B ?k \<in> known_indices s0 f"
    using grows_trans [OF g fin] seen by (rule known_final)
  have shared: "set_balance B a t v (shared_state x) = Inr (shared_state x')"
    using ok by (simp add: set_balance_Inr shared_state_def bal tok bs_set_eq)
  have "recorder_inv B s0 (b_balances x')"
    using r bs_set_inv [OF _ B_ok B_nonzero] by (simp add: bal follow_rel_def)
  then show "\<exists>y'. so_set_balance (merkle_ops B) a t v y = Inr y' \<and> follow_rel B s0 f x' y'"
    using state_covers_set [OF _ ix shared] r by (simp add: follow_rel_def merkle_ops_def)
qed


interpretation demo_client: client_run demo_hash s0 f ids for s0 f ids
  by unfold_locales simp_all

context client_run begin

lemma run_shared:
  "state_transition (builder_ops B) ops x = Inr x' \<Longrightarrow> shared_rel B s0 ids x (shared_state x) \<Longrightarrow>
     shared_rel B s0 ids x' (shared_state x') \<and>
     state_transition (merkle_ops B) ops (shared_state x) = Inr (shared_state x')"
  using shared.transition_sim [of ops x x' "shared_state x"] by (auto simp: shared_rel_def)

lemma run_grows:
  "state_transition (builder_ops B) ops x = Inr x' \<Longrightarrow> grows (b_balances x') f \<Longrightarrow> grows (b_balances x) f"
  by (rule service.transition_final)

lemma run_followed:
  "state_transition (builder_ops B) ops x = Inr x' \<Longrightarrow> grows (b_balances x') f \<Longrightarrow>
     follow_rel B s0 f x p \<Longrightarrow> \<exists>p'. state_transition (merkle_ops B) ops p = Inr p' \<and> follow_rel B s0 f x' p'"
  by (rule service.transition_sim)

end

section \<open>Loading the witness\<close>

lemma get_hash_load_hashes:
  "bt_ok m \<Longrightarrow> get_hash (tree (load_hashes m)) n = (case bt_get m n of Some h \<Rightarrow> h | None \<Rightarrow> EMPTY_HASH)"
  by (simp add: get_hash_def bt_get_extend bt_ok_distinct split: option.split)

lemma load_recorded:
  assumes s0: "store_ok B s0" and inv: "recorder_inv B s0 f"
    and root: "65534 \<in> known_nodes s0 f"
    and initial: "\<forall>(k, v) \<in> set (key_values_witness f). st_get B k s0 = Some v"
  shows "\<exists>p. st_init_from_witness B (tw_witness (bt_tree_witness f)) (key_values_witness f) = Some p \<and>
    covers (known_nodes s0 f) (known_indices s0 f) p s0"
proof -
  let ?N = "known_nodes s0 f" and ?hs = "tw_witness (bt_tree_witness f)" and ?kvs = "key_values_witness f"
  let ?t = "load_hashes ?hs"
  have ok: "bt_ok ?hs" using inv by (simp add: recorder_inv_def)
  have hash: "get_hash (tree ?t) n = get_hash (tree s0) n" if "n \<in> ?N" for n
    using that inv
    by (auto simp: get_hash_load_hashes [OF ok] known_nodes_def recorder_inv_def split: option.split)
  then have agree: "agree_on ?N (tree ?t) (tree s0)" by (simp add: agree_on_def)
  have key: "k \<in> recorded_keys f" if "(k, v) \<in> set ?kvs" for k v
    using that by (auto simp: dom_map_of_conv_image_fst intro: rev_image_eqI)
  have sib: "sibling_nodes (tree_index_from_key B k) \<subseteq> ?N" if "(k, v) \<in> set ?kvs" for k v
    using inv key [OF that] unfolding recorder_inv_def accessed_def known_nodes_def by blast
  have r: "st_root ?t = st_root s0" using hash [OF root] by (simp add: st_root_def tree_root_eq)
  obtain p where p: "load_values B (st_root s0) ?kvs ?t = Some p" "agree_on ?N (tree p) (tree s0)"
    and entries: "\<And>ix. bt_get (key_values p) ix =
       (if ix \<in> tree_index_from_key B ` fst ` set ?kvs then bt_get (key_values s0) ix else None)"
    using load_honest [OF s0 root _ agree, of ?kvs] initial sib by fastforce
  have "sibling_nodes ix \<subseteq> ?N \<and> bt_get (key_values p) ix = bt_get (key_values s0) ix"
    if ix: "ix \<in> known_indices s0 f" for ix
  proof
    show "sibling_nodes ix \<subseteq> ?N"
      using ix unfolding known_indices_def seen_index_def accessed_def known_nodes_def by blast
    show "bt_get (key_values p) ix = bt_get (key_values s0) ix"
    proof (cases "bt_get (key_values s0) ix")
      case (Some kv)
      then have "kv_key kv \<in> fst ` set ?kvs" "tree_index_from_key B (kv_key kv) = ix"
        using ix s0 by (auto simp: known_indices_def seen_index_def store_ok_def dom_map_of_conv_image_fst)
      then show ?thesis by (auto simp: entries)
    qed (simp add: entries)
  qed
  then show ?thesis
    using p root by (intro exI [of _ p]) (simp add: st_init_from_witness_def Let_def r covers_def)
qed

section \<open>Agreement\<close>

lemma client_start:
  assumes "fresh_recorder b0" "store_ok B (balances (shared_state b0))"
  shows "shared_state (snd (b_get_root B b0)) = shared_state b0"
    and "shared_rel B (balances (shared_state b0)) (token_ids (known_tokens (shared_state b0)))
      (snd (b_get_root B b0)) (shared_state (snd (b_get_root B b0)))"
    and "65534 \<in> recorded (b_balances (snd (b_get_root B b0))) \<or>
      get_hash (tree (balances (shared_state b0))) 65534 = EMPTY_HASH"
proof -
  let ?b = "snd (b_get_root B b0)"
  have inv0: "recorder_inv B (balances (shared_state b0)) (b_balances b0)" using assms by (rule fresh_recorder_inv)
  have root: "b_balances ?b = snd (bs_root (b_balances b0))" "b_known_tokens ?b = b_known_tokens b0"
    by (simp_all add: b_get_root_def Let_def case_prod_unfold)
  show "shared_state ?b = shared_state b0"
    by (simp add: shared_state_def root bs_root(2) [OF inv0])
  show "shared_rel B (balances (shared_state b0)) (token_ids (known_tokens (shared_state b0))) ?b (shared_state ?b)"
    using assms(1) bs_root(3) [OF inv0]
    by (simp add: shared_rel_def root fresh_recorder_def shared_state_def)
  show "65534 \<in> recorded (b_balances ?b) \<or> get_hash (tree (balances (shared_state b0))) 65534 = EMPTY_HASH"
    using bs_root(5) [OF inv0] unfolding root by blast
qed

lemma client_run_shared:
  assumes "blake2b_ok B" "blake2b_nonzero B" "fresh_recorder b0" "store_ok B (balances (shared_state b0))"
    and "state_transition (builder_ops B) ops (snd (b_get_root B b0)) = Inr b1"
  shows "state_transition (merkle_ops B) ops (shared_state b0) = Inr (shared_state b1)"
proof -
  have "client_run B" using assms(1,2) by unfold_locales
  then show ?thesis
    using client_run.run_shared [OF _ assms(5) client_start(2) [OF assms(3,4)]] client_start(1) [OF assms(3,4)]
    by simp
qed

lemma client_witness_followed:
  assumes B: "blake2b_ok B" "blake2b_nonzero B"
    and start: "fresh_recorder b0" "store_ok B (balances (shared_state b0))"
    and run: "state_transition (builder_ops B) ops (snd (b_get_root B b0)) = Inr b1"
    and recorded_initial: "\<forall>(k, v) \<in> set (key_value_balances (fst (take_witness b1))).
          st_get B k (balances (shared_state b0)) = Some v"
  shows "\<exists>p p'. from_witness B (fst (take_witness b1)) = Some p \<and>
    get_root B p = get_root B (shared_state b0) \<and>
    state_transition (merkle_ops B) ops p = Inr p' \<and>
    get_root B p' = get_root B (shared_state b1)"
proof -
  let ?s0 = "balances (shared_state b0)" and ?f = "b_balances b1" and ?b = "snd (b_get_root B b0)"
  let ?ids = "token_ids (known_tokens (shared_state b0))"
  have client: "client_run B" using B by unfold_locales
  note shared_b = client_start(1) [OF start] and rel_b = client_start(2) [OF start]
  have rel_1: "shared_rel B ?s0 ?ids b1 (shared_state b1)"
    using client_run.run_shared [OF client run rel_b] by simp
  then have inv1: "recorder_inv B ?s0 ?f" by (simp add: shared_rel_def)
  have "grows (b_balances ?b) ?f"
    using client_run.run_grows [OF client run] by simp
  then have root_known: "65534 \<in> known_nodes ?s0 ?f"
    using client_start(3) [OF start] unfolding known_nodes_def grows_def by blast
  have initial: "\<forall>(k, v) \<in> set (key_values_witness ?f). st_get B k ?s0 = Some v"
    using recorded_initial by simp
  obtain t where t: "st_init_from_witness B (tw_witness (bt_tree_witness ?f)) (key_values_witness ?f) = Some t"
    and covers: "covers (known_nodes ?s0 ?f) (known_indices ?s0 ?f) t ?s0"
    using load_recorded [OF start(2) inv1 root_known initial] by blast
  define p where "p = \<lparr>balances = t, known_tokens = known_tokens (shared_state b0)\<rparr>"
  have load: "from_witness B (fst (take_witness b1)) = Some p"
    using rel_1 t by (simp add: from_witness_def p_def empty_state_def shared_rel_def)
  have p0: "state_covers (known_nodes ?s0 ?f) (known_indices ?s0 ?f) p (shared_state b0)"
    using covers by (simp add: state_covers_def p_def)
  then have "follow_rel B ?s0 ?f ?b p"
    using rel_b by (simp add: follow_rel_def shared_b shared_rel_def)
  then obtain p' where p': "state_transition (merkle_ops B) ops p = Inr p'" "follow_rel B ?s0 ?f b1 p'"
    using client_run.run_followed [OF client run grows_refl] by blast
  then have "get_root B p' = get_root B (shared_state b1)"
    by (auto simp: follow_rel_def dest: state_covers_root)
  then show ?thesis using load state_covers_root [OF p0] p'(1) by blast
qed

end
