(* ===== verification/Merkle_Props.thy ===== *)
theory Merkle_Props
  imports Merkle_Spec
begin

text \<open>
  The properties of the Merkle state: the store refines a map with a reference Merkle root, the
  root depends on the contents only and binds them, what a witness proves and what it does not,
  and which part of the index space the key hash reaches.
\<close>

lemma store_ok_entry:
  assumes "store_ok B s" "bt_get (key_values s) ix = Some kv"
  shows "tree_index_from_key B (kv_key kv) = ix" "leaf_key B (kv_key kv)"
  using assms by (auto simp: store_ok_def)

lemma store_entry_iff:
  assumes "store_ok B s"
  shows "bt_get (key_values s) ix = Some kv \<longleftrightarrow>
    tree_index_from_key B (kv_key kv) = ix \<and> st_get B (kv_key kv) s = Some (kv_value kv)"
  using store_ok_entry [OF assms]
  by (auto simp: st_get_eq split: option.splits if_splits)

lemma store_entries_from_get:
  assumes "store_ok B s" "store_ok B s'" "\<And>k. st_get B k s = st_get B k s'"
  shows "bt_get (key_values s) = bt_get (key_values s')"
proof
  fix ix
  have "\<And>kv. bt_get (key_values s) ix = Some kv \<longleftrightarrow> bt_get (key_values s') ix = Some kv"
    using assms by (simp add: store_entry_iff)
  then show "bt_get (key_values s) ix = bt_get (key_values s') ix" by (metis option.exhaust)
qed

lemma leaf_hash_of_get:
  "bt_get kvs (of_nat i) = bt_get kvs' (of_nat i) \<Longrightarrow> leaf_hash B kvs i = leaf_hash B kvs' i"
  by (simp add: leaf_hash_def)

lemma demo_leaf_keys [simp]:
  "leaf_key demo_hash [1, 2]" "leaf_key demo_hash [3, 4]" "leaf_key demo_hash [0, 0]"
  using demo_tree_index [of "[]" 1 2] demo_tree_index [of "[]" 3 4] demo_tree_index [of "[]" 0 0]
  by (simp_all add: leaf_key_def)

lemma demo_indices:
  "tree_index_from_key demo_hash [1, 2] = 2" "tree_index_from_key demo_hash [3, 4] = 516"
  "tree_index_from_key demo_hash [0, 0] = 0" "tree_index_from_key demo_hash [128, 0] = 32768"
  using demo_tree_index [of "[]" 1 2] demo_tree_index [of "[]" 3 4] demo_tree_index [of "[]" 0 0]
    demo_tree_index [of "[]" 128 0]
  by simp_all

lemma st_set_empty_ok [simp]: "fst (st_set B k v empty_state_tree)"
  by (simp add: st_set_ok_iff empty_state_tree_def)

section \<open>The store refines a map\<close>

text \<open>
  C6. A \<open>set\<close> that succeeds on a leaf key keeps the store invariant, is a map update for \<open>get\<close>,
  and moves the root to the reference Merkle root of the leaves with that one leaf replaced.
\<close>

theorem st_set_refines:
  assumes "store_ok B s" "leaf_key B k" "fst (st_set B k v s)"
  shows "store_ok B (snd (st_set B k v s)) \<and>
    (\<forall>k'. st_get B k' (snd (st_set B k v s)) = ((\<lambda>k'. st_get B k' s)(k \<mapsto> v)) k') \<and>
    st_root (snd (st_set B k v s)) =
      ref_root B ((leaf_hash B (key_values s))
        (unat (tree_index_from_key B k) := kv_merkle_value B \<lparr>kv_value = v, kv_key = k\<rparr>))"
proof (intro conjI allI)
  let ?s = "snd (st_set B k v s)" and ?ix = "tree_index_from_key B k"
  show ok: "store_ok B ?s" using assms(1,2) by (rule store_ok_set)
  show "st_get B k' ?s = ((\<lambda>k'. st_get B k' s)(k \<mapsto> v)) k'" for k'
    using st_get_set [OF assms(3)] by simp
  have "leaf_hash B (key_values ?s) i = ((leaf_hash B (key_values s))
      (unat ?ix := kv_merkle_value B \<lparr>kv_value = v, kv_key = k\<rparr>)) i" if "i < 2 ^ 15" for i
    using leaf_index_eq [OF that] by (auto simp: leaf_hash_def st_set_True [OF assms(3)])
  then show "st_root ?s = ref_root B ((leaf_hash B (key_values s))
      (unat ?ix := kv_merkle_value B \<lparr>kv_value = v, kv_key = k\<rparr>))"
    unfolding st_root_ref [OF ok] by (rule ref_root_cong)
qed

theorem st_set_refines_witness:
  "st_root (snd (st_set demo_hash [1, 2] 7 empty_state_tree)) =
     ref_root demo_hash ((\<lambda>_. EMPTY_HASH)
       (2 := kv_merkle_value demo_hash \<lparr>kv_value = 7, kv_key = [1, 2]\<rparr>))"
proof -
  have "leaf_hash demo_hash (key_values empty_state_tree) = (\<lambda>_. EMPTY_HASH)"
    by (simp add: leaf_hash_def empty_state_tree_def fun_eq_iff)
  then show ?thesis
    using st_set_refines [of demo_hash empty_state_tree "[1, 2]" 7] by (simp add: demo_indices)
qed



text \<open>
  C21. The root binds the balances: two stores with one root give the same answer for a leaf key,
  unless two different inputs of the node hash on that leaf's path collide, or two different
  entries at the leaf do.
\<close>

theorem root_binds_entry:
  assumes "store_ok B s" "store_ok B s'" "blake2b_nonzero B" "st_root s = st_root s'"
    and key: "leaf_key B (kv_key kv)" and entry: "st_get B (kv_key kv) s = Some (kv_value kv)"
    and "\<forall>m<15. \<not> collides B
           (ref_children B (leaf_hash B (key_values s)) m (unat (tree_index_from_key B (kv_key kv))))
           (ref_children B (leaf_hash B (key_values s')) m (unat (tree_index_from_key B (kv_key kv))))"
    and "leaf_injective B kv s'"
  shows "st_get B (kv_key kv) s' = Some (kv_value kv)"
proof -
  let ?ix = "tree_index_from_key B (kv_key kv)"
  have ix: "unat ?ix < 2 ^ 15" using key by (simp add: leaf_key_def)
  have "leaf_hash B (key_values s) (unat ?ix) = leaf_hash B (key_values s') (unat ?ix)"
  proof (rule ref_binding [of B _ 15])
    show "ref_node B (leaf_hash B (key_values s)) 15 (unat ?ix div 2 ^ 15) =
        ref_node B (leaf_hash B (key_values s')) 15 (unat ?ix div 2 ^ 15)"
      using ix assms(1,2,4) by (simp add: st_root_ref ref_root_def TREE_DEPTH_def)
  qed (fact assms(7))
  moreover have "bt_get (key_values s) ?ix = Some kv"
    using entry assms(1) by (simp add: store_entry_iff)
  ultimately have "leaf_hash B (key_values s') (unat ?ix) = kv_merkle_value B kv"
    by (simp add: leaf_hash_def)
  then have "bt_get (key_values s') ?ix = Some kv"
    by (rule leaf_hash_entry [OF assms(3,8)])
  then show ?thesis using assms(2) by (simp add: store_entry_iff)
qed

theorem root_binds_entry_witness:
  "st_get demo_hash [1, 2] (snd (st_set demo_hash [1, 2] 7 empty_state_tree)) = Some 7"
proof -
  have "leaf_injective demo_hash \<lparr>kv_value = 7, kv_key = [1, 2]\<rparr>
      (snd (st_set demo_hash [1, 2] 7 empty_state_tree))"
    by (simp add: leaf_injective_def st_set_True)
  then show ?thesis
    using root_binds_entry [of demo_hash "snd (st_set demo_hash [1, 2] 7 empty_state_tree)"
        "snd (st_set demo_hash [1, 2] 7 empty_state_tree)" "\<lparr>kv_value = 7, kv_key = [1, 2]\<rparr>"]
    by (simp add: store_ok_set st_get_set collides_def)
qed

section \<open>What a witness proves\<close>

lemma st_root_path:
  assumes "unat ix < 2 ^ 15"
  shows "tree_root (tree_insert B ix h t) = path_hash B (get_hash t) h (unat ix) 15"
  using tree_insert_path [OF assms, of 15 B h t] assms by (simp add: tree_root_eq root_node)

text \<open>
  C11. A witness entry that the loader stores is an entry of every store with the same root, again
  up to a named collision between the loaded path and that store's tree: a client cannot
  present a balance that the committed state does not hold.
\<close>

theorem witness_entry_authentic:
  assumes s: "store_ok B s" "blake2b_nonzero B" and kv: "leaf_key B (kv_key kv)"
    and loaded: "st_init_from_witness B hs (pre @ (kv_key kv, kv_value kv) # post) = Some p"
    and root: "st_root p = st_root s"
    and before: "load_values B (st_root (load_hashes hs)) pre (load_hashes hs) = Some u"
    and stored: "fst (st_set B (kv_key kv) (kv_value kv) u)"
    and "\<forall>m<15. \<not> collides B
           (path_children B (get_hash (tree u)) (kv_merkle_value B kv) m
              (unat (tree_index_from_key B (kv_key kv))))
           (ref_children B (leaf_hash B (key_values s)) m (unat (tree_index_from_key B (kv_key kv))))"
    and "leaf_injective B kv s"
  shows "st_get B (kv_key kv) s = Some (kv_value kv)"
proof -
  let ?ix = "tree_index_from_key B (kv_key kv)" and ?r = "st_root (load_hashes hs)"
  let ?u = "snd (st_set B (kv_key kv) (kv_value kv) u)"
  have ix: "unat ?ix < 2 ^ 15" using kv by (simp add: leaf_key_def)
  have load: "load_values B ?r (pre @ (kv_key kv, kv_value kv) # post) (load_hashes hs) = Some p"
    using loaded by (simp add: st_init_from_witness_def Let_def)
  then have "st_root ?u = ?r" "?r = st_root p"
    using load_values_root [OF load] before
    by (auto simp: load_values_append Let_def split: if_splits)
  moreover have "st_root ?u = path_hash B (get_hash (tree u)) (kv_merkle_value B kv) (unat ?ix) 15"
    by (simp add: st_set_True [OF stored] st_root_def st_root_path [OF ix])
  moreover have "st_root s = ref_node B (leaf_hash B (key_values s)) 15 (unat ?ix div 2 ^ 15)"
    using ix s(1) by (simp add: st_root_ref ref_root_def TREE_DEPTH_def)
  ultimately have "path_hash B (get_hash (tree u)) (kv_merkle_value B kv) (unat ?ix) 15
      = ref_node B (leaf_hash B (key_values s)) 15 (unat ?ix div 2 ^ 15)"
    using root by simp
  then have "kv_merkle_value B kv = leaf_hash B (key_values s) (unat ?ix)"
    using assms(8) by (rule path_binding)
  then have "bt_get (key_values s) ?ix = Some kv"
    using leaf_hash_entry [OF s(2) assms(9)] by simp
  then show ?thesis using s(1) by (simp add: store_entry_iff)
qed

theorem witness_entry_authentic_witness:
  "st_get demo_hash [1, 2] (snd (st_set demo_hash [1, 2] 7 empty_state_tree)) = Some 7 \<and>
   (\<exists>p. st_init_from_witness demo_hash
          [(65534, st_root (snd (st_set demo_hash [1, 2] 7 empty_state_tree)))] [([1, 2], 7)] = Some p)"
proof -
  let ?kv = "\<lparr>kv_value = 7, kv_key = [1, 2]\<rparr> :: key_value"
  define s where "s = snd (st_set demo_hash [1, 2] 7 empty_state_tree)"
  define u where "u = load_hashes [(65534, st_root s)]"
  define p where "p = snd (st_set demo_hash [1, 2] 7 u)"
  have s: "store_ok demo_hash s" by (simp add: s_def store_ok_set)
  have two: "unat (2 :: tree_index) < 2 ^ 15" by simp
  have stored: "fst (st_set demo_hash [1, 2] 7 u)" by (simp add: st_set_ok_iff u_def)
  have u: "get_hash (tree u) n = (if n = 65534 then st_root s else EMPTY_HASH)" for n
    by (simp add: u_def get_hash_def bt_extend_def)
  have empty: "get_hash (tree empty_state_tree) n = EMPTY_HASH" for n
    by (simp add: empty_state_tree_def)
  have sib: "get_hash (tree u) n = EMPTY_HASH" "n \<notin> path_nodes 2"
    if "n \<in> sibling_nodes 2" for n
    using sibling_nodes_avoid [OF two that] root_in_path [OF two] by (auto simp: u)
  have root: "st_root p = st_root s"
    unfolding p_def st_set_True [OF stored] st_root_def tree_root_eq s_def st_set_True [OF st_set_empty_ok]
    using sib root_in_path [OF two] by (auto simp: demo_indices empty intro!: tree_insert_agree)
  have load: "st_init_from_witness demo_hash [(65534, st_root s)] ([] @ (kv_key ?kv, kv_value ?kv) # []) = Some p"
    using root by (simp add: st_init_from_witness_def Let_def p_def flip: u_def)
      (simp add: u st_root_def tree_root_eq)
  have leaf: "kv_merkle_value demo_hash ?kv = leaf_hash demo_hash (key_values s) 2"
    by (simp add: leaf_hash_def s_def st_set_True demo_indices)
  have "get_hash (tree s) n = EMPTY_HASH" if "n \<in> sibling_nodes 2" for n
    using tree_insert_other [OF sib(2) [OF that]]
    by (simp add: s_def st_set_True demo_indices empty)
  moreover have "sibling m (2 div 2 ^ m) \<in> sibling_nodes 2" if "m < 15" for m
    using that by (auto simp: sibling_nodes_def intro!: exI [of _ m])
  ultimately have both: "get_hash (tree u) (sibling m (2 div 2 ^ m)) = get_hash (tree s) (sibling m (2 div 2 ^ m))"
    if "m < 15" for m using that sib(1) by simp
  have path: "path_children demo_hash (get_hash (tree u)) (kv_merkle_value demo_hash ?kv) m 2
      = ref_children demo_hash (leaf_hash demo_hash (key_values s)) m 2" if "m < 15" for m
    unfolding leaf using that both by (intro path_children_tree [OF s]) simp_all
  have "st_get demo_hash (kv_key ?kv) s = Some (kv_value ?kv)"
  proof (rule witness_entry_authentic [OF s _ _ load root])
    show "load_values demo_hash (st_root (load_hashes [(65534, st_root s)])) []
        (load_hashes [(65534, st_root s)]) = Some u" by (simp add: u_def)
    show "leaf_injective demo_hash ?kv s" by (simp add: leaf_injective_def s_def st_set_True)
  qed (use stored path in \<open>simp_all add: demo_indices collides_def\<close>)
  then show ?thesis using load by (simp flip: s_def)
qed


section \<open>Indices that are not leaves\<close>

text \<open>
  C38. The index of a key is a leaf (below \<open>2 ^ 15\<close>) exactly when the top bit of the second hash
  byte is clear: the mask \<open>255 << 1\<close> clears bit 8 of the index, never its top bit.
\<close>

theorem tree_index_leaf_iff:
  "leaf_key B k \<longleftrightarrow> \<not> bit (hash_multiple B [k] ! 1) 7"
proof -
  define n where "n = unat (tree_index_from_key B k)"
  have "n < 2 ^ 16" unfolding n_def using unsigned_less [of "tree_index_from_key B k", where 'a = nat] by simp
  then have "odd (n div 2 ^ 15) \<longleftrightarrow> \<not> n < 2 ^ 15"
    by (cases "n < 2 ^ 15") (auto simp: div_if)
  moreover have "bit (tree_index_from_key B k) 15 \<longleftrightarrow> odd (n div 2 ^ 15)"
    using bit_unsigned_iff [of "tree_index_from_key B k" 15, where 'a = nat]
    by (simp add: n_def bit_iff_odd)
  ultimately have "leaf_key B k \<longleftrightarrow> \<not> bit (tree_index_from_key B k) 15"
    by (simp add: leaf_key_def n_def)
  also have "\<dots> \<longleftrightarrow> \<not> bit (hash_multiple B [k] ! 1) 7" by (simp add: bit_tree_index)
  finally show ?thesis .
qed

text \<open>
  C39. Where one key's index is the parent node of another key's leaf, writing the second hides
  the first from the root: the root is the same whatever balance the first key holds.
\<close>

theorem overlaid_balance_not_committed:
  assumes leaf: "leaf_key B ka"
    and above: "unat (tree_index_from_key B kb) = 2 ^ 15 + unat (tree_index_from_key B ka) div 2"
    and ok: "fst (st_set B ka w s)" "fst (st_set B kb v s)"
  shows "let s1 = snd (st_set B ka w (snd (st_set B kb v s)));
             s2 = snd (st_set B ka w (snd (st_set B kb v' s)))
         in st_root s1 = st_root s2 \<and> st_get B kb s1 = Some v \<and> st_get B kb s2 = Some v'"
proof -
  let ?i = "tree_index_from_key B ka" and ?j = "tree_index_from_key B kb"
  have i: "unat ?i < 2 ^ 15" using leaf by (simp add: leaf_key_def)
  have "2 ^ 15 \<le> unat ?j" unfolding above by (rule le_add1)
  with i have ne: "?i \<noteq> ?j" "ka \<noteq> kb" by (metis not_le)+
  have b: "fst (st_set B kb x s)" for x using ok(2) by (simp add: st_set_ok_iff)
  have a: "fst (st_set B ka w (snd (st_set B kb x s)))" for x
    using ok(1) ne by (simp add: st_set_ok_iff st_set_True [OF b])
  have "st_root (snd (st_set B ka w (snd (st_set B kb x s))))
      = tree_root (tree_insert B ?i (kv_merkle_value B \<lparr>kv_value = w, kv_key = ka\<rparr>) (tree s))" for x
    by (simp only: st_root_def st_set_True [OF a])
      (simp add: st_set_True [OF b] insert_over_parent [OF i above])
  then show ?thesis
    using ne by (simp add: Let_def st_get_set [OF a] st_get_set [OF b])
qed

theorem overlaid_balance_not_committed_witness:
  "st_root (snd (st_set demo_hash [0, 0] 1 (snd (st_set demo_hash [128, 0] 5 empty_state_tree)))) =
   st_root (snd (st_set demo_hash [0, 0] 1 (snd (st_set demo_hash [128, 0] 6 empty_state_tree))))"
  using overlaid_balance_not_committed [of demo_hash "[0, 0]" "[128, 0]" 1 empty_state_tree 5 6]
  by (simp add: demo_indices Let_def)

end
