(* ===== verification/Json.thy ===== *)
theory Json
  imports Common
begin

text \<open>
  The JSON front end of \<open>token-ledger-common\<close> (\<open>src/json.rs\<close>): the human-readable operations, the
  hex decoder of accounts and signatures, and the conversion of a parsed array to signed
  operations. \<open>serde_json\<close> is a parameter. A \<open>&str\<close> is its UTF-8 bytes, which is what \<open>len\<close> counts
  and what slicing cuts; the error strings are the constructors of \<open>json_error\<close>.
\<close>

section \<open>Data\<close>

type_synonym str = bytes \<comment> \<open>UTF-8\<close>

datatype unsigned_operation_json =
  UMint (u_token: token_id) (u_amount: u64) (u_to_seed: u64)
| UTransfer (u_token: token_id) (u_amount: u64) (u_from_seed: u64) (u_to_seed: u64)

datatype signed_operation_json =
  SMint (s_token: token_id) (s_amount: u64) (s_to: str) (s_signature: str)
| STransfer (s_token: token_id) (s_amount: u64) (s_from: str) (s_to: str) (s_signature: str)

datatype json_error =
  ParseError string                    \<comment> \<open>\<open>"Failed to parse JSON array: {}"\<close>\<close>
| HexLength nat nat                    \<comment> \<open>\<open>"Invalid hex length: expected {}, got {}"\<close>\<close>
| HexCharacter nat                     \<comment> \<open>\<open>"Invalid hex character at position {}"\<close>\<close>
| AccountHex json_error                \<comment> \<open>\<open>"Invalid account hex: {}"\<close>\<close>
| SignatureHex json_error              \<comment> \<open>\<open>"Invalid signature hex: {}"\<close>\<close>

text \<open>A call that may panic and may return an error.\<close>

type_synonym 'a fallible = "panic + (json_error + 'a)"

definition bind_err :: "'a fallible \<Rightarrow> ('a \<Rightarrow> 'b fallible) \<Rightarrow> 'b fallible" where
  "bind_err r f = bind_res r (\<lambda>x. case x of Inl e \<Rightarrow> Inr (Inl e) | Inr y \<Rightarrow> f y)"

definition map_error :: "(json_error \<Rightarrow> json_error) \<Rightarrow> 'a fallible \<Rightarrow> 'a fallible" where
  "map_error g r = bind_res r (\<lambda>x. case x of Inl e \<Rightarrow> Inr (Inl (g e)) | Inr y \<Rightarrow> Inr (Inr y))"

section \<open>What the decoder uses of the standard library\<close>

text \<open>\<open>char::to_digit(16)\<close> on an ASCII byte.\<close>

definition hex_digit :: "u8 \<Rightarrow> u8 option" where
  "hex_digit c =
     (if 0x30 \<le> c \<and> c \<le> 0x39 then Some (c - 0x30)
      else if 0x61 \<le> c \<and> c \<le> 0x66 then Some (c - 0x61 + 10)
      else if 0x41 \<le> c \<and> c \<le> 0x46 then Some (c - 0x41 + 10)
      else None)"

text \<open>
  \<open>from_str_radix(s, 16)\<close> of an unsigned type with the values below \<open>limit\<close>: one leading plus sign is
  allowed, and more than fits is an error.
\<close>

fun hex_value :: "nat \<Rightarrow> nat \<Rightarrow> bytes \<Rightarrow> nat option" where
  "hex_value limit acc [] = Some acc"
| "hex_value limit acc (c # cs) =
     (case hex_digit c of
        None \<Rightarrow> None
      | Some d \<Rightarrow> let acc = 16 * acc + unat d in if acc < limit then hex_value limit acc cs else None)"

definition from_str_radix_16 :: "nat \<Rightarrow> str \<Rightarrow> nat option" where
  "from_str_radix_16 limit s =
     (let digits = (case s of c # cs \<Rightarrow> if c = 0x2b \<and> cs \<noteq> [] then cs else s | [] \<Rightarrow> [])
      in if digits = [] then None else hex_value limit 0 digits)"

definition u8_from_str_radix_16 :: "str \<Rightarrow> u8 option" where
  "u8_from_str_radix_16 s = map_option of_nat (from_str_radix_16 256 s)"

text \<open>\<open>is_char_boundary\<close>, and the slice \<open>&s[i..j]\<close>, which panics off a boundary.\<close>

definition char_boundary :: "str \<Rightarrow> nat \<Rightarrow> bool" where
  "char_boundary s i \<longleftrightarrow> i = 0 \<or> i = length s \<or> (i < length s \<and> s ! i AND 0xc0 \<noteq> 0x80)"

definition str_slice :: "str \<Rightarrow> nat \<Rightarrow> nat \<Rightarrow> panic + str" where
  "str_slice s i j =
     (if i \<le> j \<and> char_boundary s i \<and> char_boundary s j then Inr (take (j - i) (drop i s))
      else Inl CharBoundary)"

definition strip_0x :: "str \<Rightarrow> str" where
  "strip_0x s = (case s of a # b # r \<Rightarrow> if a = 0x30 \<and> b = 0x78 then r else s | _ \<Rightarrow> s)"

section \<open>The decoder\<close>

text \<open>The loop over the positions \<open>i, ..., N - 1\<close> of the result.\<close>

fun decode_pairs :: "str \<Rightarrow> nat list \<Rightarrow> bytes \<Rightarrow> bytes fallible" where
  "decode_pairs s [] result = Inr (Inr result)"
| "decode_pairs s (i # is) result =
     bind_res (str_slice s (i * 2) ((i + 1) * 2)) (\<lambda>byte_str.
       case u8_from_str_radix_16 byte_str of
         None \<Rightarrow> Inr (Inl (HexCharacter (i * 2)))
       | Some b \<Rightarrow> decode_pairs s is (result[i := b]))"

definition decode_hex :: "nat \<Rightarrow> str \<Rightarrow> bytes fallible" where
  "decode_hex N s =
     (let s = strip_0x s
      in if length s \<noteq> N * 2 then Inr (Inl (HexLength (N * 2) (length s)))
         else decode_pairs s [0..<N] (zero_bytes N))"

definition decode_account :: "str \<Rightarrow> account_id fallible" where
  "decode_account s = map_error AccountHex (decode_hex 32 s)"

definition decode_signature :: "str \<Rightarrow> ed_signature fallible" where
  "decode_signature s = map_error SignatureHex (decode_hex 64 s)"

section \<open>Parsing\<close>

definition parse_unsigned_operations ::
    "(bytes \<Rightarrow> string + unsigned_operation_json list) \<Rightarrow> bytes \<Rightarrow> json_error + unsigned_operation_json list" where
  "parse_unsigned_operations from_slice json_bytes =
     (case from_slice json_bytes of Inl e \<Rightarrow> Inl (ParseError e) | Inr ops \<Rightarrow> Inr ops)"

fun to_signed_operation :: "signed_operation_json \<Rightarrow> signed_operation fallible" where
  "to_signed_operation (SMint token_id amount to sig) =
     bind_err (decode_account to) (\<lambda>to.
     bind_err (decode_signature sig) (\<lambda>sig.
       Inr (Inr \<lparr>operation = Mint to token_id amount, signature = sig\<rparr>)))"
| "to_signed_operation (STransfer token_id amount from to sig) =
     bind_err (decode_account from) (\<lambda>from.
     bind_err (decode_account to) (\<lambda>to.
     bind_err (decode_signature sig) (\<lambda>sig.
       Inr (Inr \<lparr>operation = Transfer from to token_id amount, signature = sig\<rparr>))))"

text \<open>\<open>collect\<close> into a \<open>Result\<close>: the first error ends it.\<close>

fun collect_signed :: "signed_operation_json list \<Rightarrow> signed_operation list fallible" where
  "collect_signed [] = Inr (Inr [])"
| "collect_signed (j # js) =
     bind_err (to_signed_operation j) (\<lambda>op. bind_err (collect_signed js) (\<lambda>ops. Inr (Inr (op # ops))))"

definition parse_signed_operations ::
    "(bytes \<Rightarrow> string + signed_operation_json list) \<Rightarrow> bytes \<Rightarrow> signed_operation list fallible" where
  "parse_signed_operations from_slice json_bytes =
     (case from_slice json_bytes of
        Inl e \<Rightarrow> Inr (Inl (ParseError e))
      | Inr ops \<Rightarrow> collect_signed ops)"

section \<open>Lemmas\<close>

lemma bind_err_simps [simp, result_simps]:
  "bind_err (Inl p) f = Inl p" "bind_err (Inr (Inl e)) f = Inr (Inl e)" "bind_err (Inr (Inr x)) f = f x"
  by (simp_all add: bind_err_def)

lemma fallible_cases:
  obtains (panic) p where "r = Inl p" | (error) e where "r = Inr (Inl e)" | (ok) x where "r = Inr (Inr x)"
  by (metis sum.exhaust)

lemma bind_err_ok_iff [result_simps]: "bind_err r f = Inr (Inr y) \<longleftrightarrow> (\<exists>x. r = Inr (Inr x) \<and> f x = Inr (Inr y))"
  by (cases r rule: fallible_cases) simp_all

lemma map_error_simps [simp, result_simps]:
  "map_error g (Inl p) = Inl p" "map_error g (Inr (Inl e)) = Inr (Inl (g e))"
  "map_error g (Inr (Inr x)) = Inr (Inr x)"
  by (simp_all add: map_error_def)

lemma map_error_ok_iff [result_simps]: "map_error g r = Inr (Inr y) \<longleftrightarrow> r = Inr (Inr y)"
  by (cases r rule: fallible_cases) simp_all

text \<open>Lower-case hex, two digits a byte: what the \<open>hex\<close> crate documents for \<open>hex::encode\<close>.\<close>

definition lower_digit :: "u8 \<Rightarrow> u8" where
  "lower_digit d = (if d < 10 then 0x30 + d else 0x61 + (d - 10))"

definition lower_hex :: "bytes \<Rightarrow> str" where
  "lower_hex bs = concat (map (\<lambda>b. [lower_digit (b div 16), lower_digit (b mod 16)]) bs)"

lemma length_lower_hex [simp]: "length (lower_hex bs) = 2 * length bs"
  by (induction bs) (simp_all add: lower_hex_def)

lemma hex_digit_lower:
  assumes "d < 16"
  shows "hex_digit (lower_digit d) = Some d" "lower_digit d < 128" "lower_digit d \<noteq> 0x78"
proof -
  have d: "unat d < 16" using assms by (simp add: word_less_nat_alt)
  have low: "unat (0x30 + d) = 0x30 + unat d" using d by (simp add: unat_plus_if')
  have high: "unat (0x61 + (d - 10)) = 0x61 + (unat d - 10)" if "\<not> d < 10"
    using d that by (simp add: unat_plus_if' unat_sub_if' word_less_nat_alt)
  have "hex_digit (lower_digit d) = Some d \<and> unat (lower_digit d) < 0x78"
  proof (cases "d < 10")
    case True
    then show ?thesis
      using low d by (simp add: lower_digit_def hex_digit_def word_le_nat_alt word_less_nat_alt)
  next
    case False
    then show ?thesis
      using high [OF False] d
      by (simp add: lower_digit_def hex_digit_def word_le_nat_alt word_less_nat_alt)
  qed
  then show "hex_digit (lower_digit d) = Some d" "lower_digit d < 128" "lower_digit d \<noteq> 0x78"
    by (auto simp: word_less_nat_alt)
qed

lemma byte_halves: "b div 16 < 16" "b mod 16 < 16" for b :: u8
proof -
  show "b mod 16 < 16" by (simp add: word_less_nat_alt unat_mod)
  have "unat b < 256" using unsigned_less [of b, where 'a = nat] by simp
  then show "b div 16 < 16" by (simp add: word_less_nat_alt unat_div)
qed

lemma from_str_radix_lower:
  "u8_from_str_radix_16 [lower_digit (b div 16), lower_digit (b mod 16)] = Some b"
proof -
  have plus: "lower_digit (b div 16) \<noteq> 0x2b"
    using hex_digit_lower(1) [OF byte_halves(1), of b] by (auto simp: hex_digit_def)
  have hi: "unat (b div 16) < 16" using byte_halves(1) [of b] by (simp add: word_less_nat_alt)
  have sum: "16 * unat (b div 16) + unat (b mod 16) = unat b" by (simp add: unat_div unat_mod)
  have "unat b < 256" using unsigned_less [of b, where 'a = nat] by simp
  then show ?thesis
    using plus hi sum
    by (simp add: u8_from_str_radix_16_def from_str_radix_16_def hex_digit_lower byte_halves Let_def)
qed

lemma ascii_boundary: "c < 128 \<Longrightarrow> c AND 0xc0 \<noteq> 0x80" for c :: u8
proof
  assume c: "c < 128" and eq: "c AND 0xc0 = 0x80"
  have "bit (c AND 0xc0) 7" by (subst eq) simp
  then have "bit c 7" by (simp only: bit_and_iff)
  moreover have "\<not> bit (unat c) 7" using c by (simp add: bit_iff_odd word_less_nat_alt)
  ultimately show False using bit_unsigned_iff [of c 7, where 'a = nat] by simp
qed

end
