(* ===== verification/Json_Props.thy ===== *)
theory Json_Props
  imports Json
begin

text \<open>
  The properties of the hex decoder: it inverts the lower-case encoder, it cannot panic on ASCII
  text, and the two inputs on which it departs from what its comment says, a leading plus sign
  in a byte and text that is not ASCII.
\<close>

section \<open>Lemmas\<close>

lemma nth_lower_hex:
  "i < length bs \<Longrightarrow> take 2 (drop (i * 2) (lower_hex bs)) =
     [lower_digit (bs ! i div 16), lower_digit (bs ! i mod 16)]"
proof (induction bs arbitrary: i)
  case (Cons b bs)
  have step: "lower_hex (b # bs) = lower_digit (b div 16) # lower_digit (b mod 16) # lower_hex bs"
    by (simp add: lower_hex_def)
  show ?case
  proof (cases i)
    case (Suc j)
    then show ?thesis using Cons by (simp add: step)
  qed (simp add: step)
qed simp

lemma lower_hex_ascii: "c \<in> set (lower_hex bs) \<Longrightarrow> c < 128 \<and> c \<noteq> 0x78"
  using hex_digit_lower(2,3) byte_halves by (induction bs) (auto simp: lower_hex_def)

definition ascii :: "str \<Rightarrow> bool" where
  "ascii s \<longleftrightarrow> (\<forall>c \<in> set s. c < 128)"

lemma ascii_slice: "ascii s \<Longrightarrow> i \<le> j \<Longrightarrow> j \<le> length s \<Longrightarrow> str_slice s i j = Inr (take (j - i) (drop i s))"
proof -
  assume s: "ascii s" and ij: "i \<le> j" "j \<le> length s"
  have "char_boundary s l" if "l \<le> length s" for l
    using s that ascii_boundary by (cases "l = length s") (auto simp: char_boundary_def ascii_def)
  then show ?thesis using ij by (simp add: str_slice_def)
qed

lemma strip_0x_lower_hex: "strip_0x (lower_hex bs) = lower_hex bs"
  using lower_hex_ascii [of _ bs] by (auto simp: strip_0x_def split: list.splits)

lemma decode_pairs_lower:
  "length r = length bs \<Longrightarrow> i \<le> length bs \<Longrightarrow>
     decode_pairs (lower_hex bs) [i..<length bs] r = Inr (Inr (take i r @ drop i bs))"
proof (induction "length bs - i" arbitrary: i r)
  case (Suc n)
  have i: "i < length bs" "[i..<length bs] = i # [Suc i..<length bs]"
    using Suc by (simp_all add: upt_conv_Cons)
  have "str_slice (lower_hex bs) (i * 2) ((i + 1) * 2) = Inr (take 2 (drop (i * 2) (lower_hex bs)))"
    using ascii_slice [of "lower_hex bs" "i * 2" "(i + 1) * 2"] i(1) lower_hex_ascii
    by (simp add: ascii_def)
  then have "decode_pairs (lower_hex bs) [i..<length bs] r
      = decode_pairs (lower_hex bs) [Suc i..<length bs] (r[i := bs ! i])"
    unfolding i(2) by (simp add: nth_lower_hex [OF i(1)] from_str_radix_lower)
  also have "\<dots> = Inr (Inr (take (Suc i) (r[i := bs ! i]) @ drop (Suc i) bs))"
    using Suc.hyps(1) [of "Suc i" "r[i := bs ! i]"] Suc.hyps(2) Suc.prems i(1) by simp
  also have "take (Suc i) (r[i := bs ! i]) @ drop (Suc i) bs = take i r @ drop i bs"
    using i(1) Suc.prems(1) by (simp add: take_Suc_conv_app_nth Cons_nth_drop_Suc)
  finally show ?case .
qed simp

lemma decode_hex_lower: "length bs = N \<Longrightarrow> decode_hex N (lower_hex bs) = Inr (Inr bs)"
  using decode_pairs_lower [of "zero_bytes N" bs 0]
  by (simp add: decode_hex_def strip_0x_lower_hex Let_def)

lemma decode_pairs_ascii:
  "ascii s \<Longrightarrow> \<forall>i \<in> set is. (i + 1) * 2 \<le> length s \<Longrightarrow> \<exists>x. decode_pairs s is r = Inr x"
proof (induction "is" arbitrary: r)
  case (Cons i "is")
  then have "str_slice s (i * 2) ((i + 1) * 2) = Inr (take 2 (drop (i * 2) s))"
    using ascii_slice [of s "i * 2" "(i + 1) * 2"] by simp
  then show ?case using Cons by (auto split: option.split)
qed simp

section \<open>Types of what is parsed\<close>

definition well_typed :: "signed_operation \<Rightarrow> bool" where
  "well_typed op \<longleftrightarrow> length (signature op) = 64 \<and>
     (case operation op of
        Mint to t a \<Rightarrow> is_bytes 32 to
      | Transfer from to t a \<Rightarrow> is_bytes 32 from \<and> is_bytes 32 to)"

lemma decode_pairs_length: "decode_pairs s is r = Inr (Inr b) \<Longrightarrow> length b = length r"
  by (induction s "is" r rule: decode_pairs.induct) (auto simp: bind_res_Inr_iff split: option.splits)

lemma decode_hex_length: "decode_hex N s = Inr (Inr b) \<Longrightarrow> length b = N"
  by (auto simp: decode_hex_def Let_def dest: decode_pairs_length split: if_splits)

lemma to_signed_typed: "to_signed_operation j = Inr (Inr op) \<Longrightarrow> well_typed op"
  by (cases j)
    (auto simp: bind_err_ok_iff decode_account_def decode_signature_def map_error_ok_iff well_typed_def
      is_bytes_def dest: decode_hex_length)

lemma collect_signed_typed:
  "collect_signed js = Inr (Inr ops) \<Longrightarrow> list_all well_typed ops \<and> length ops = length js"
  by (induction js arbitrary: ops) (auto simp: bind_err_ok_iff to_signed_typed)

section \<open>Properties\<close>

text \<open>
  Decoding the lower-case hex of \<open>N\<close> bytes gives the bytes back, with or without the prefix
  \<open>0x\<close>.
\<close>

lemma decode_hex_roundtrip:
  assumes "length bs = N"
  shows "decode_hex N (lower_hex bs) = Inr (Inr bs) \<and>
    decode_hex N (0x30 # 0x78 # lower_hex bs) = Inr (Inr bs)"
proof -
  have "strip_0x (0x30 # 0x78 # lower_hex bs) = strip_0x (lower_hex bs)"
    unfolding strip_0x_lower_hex by (simp add: strip_0x_def)
  then show ?thesis using decode_hex_lower [OF assms] by (simp add: decode_hex_def)
qed

text \<open>
  On ASCII text, of whatever length and content, decoding returns: the bytes or an error,
  never a panic.
\<close>

lemma decode_hex_ascii_total:
  assumes "ascii s"
  shows "\<exists>x. decode_hex N s = Inr x"
proof -
  have "ascii (strip_0x s)"
    using assms by (auto simp: strip_0x_def ascii_def split: list.splits if_splits)
  then show ?thesis
    using decode_pairs_ascii [of "strip_0x s" "[0..<N]"] by (auto simp: decode_hex_def Let_def)
qed

text \<open>
  C37. Text that is not ASCII panics instead of being refused: with a two-byte character across a
  pair boundary and the expected length, the slice cuts the character.
\<close>

theorem decode_hex_cut_character:
  assumes "length rest = 2 * N - 3" "2 \<le> N"
    and "b AND 0xc0 = 0xc0" "c AND 0xc0 = 0x80"
  shows "decode_hex N (a # b # c # rest) = Inl CharBoundary"
proof -
  have "b \<noteq> 0x78" using assms(3) by auto
  then have "strip_0x (a # b # c # rest) = a # b # c # rest" by (simp add: strip_0x_def)
  moreover have "[0..<N] = 0 # [1..<N]" using assms(2) by (simp add: upt_conv_Cons)
  moreover have "\<not> char_boundary (a # b # c # rest) 2"
    using assms(4) by (simp add: char_boundary_def)
  ultimately show ?thesis
    using assms(1,2) by (simp add: decode_hex_def str_slice_def Let_def)
qed

theorem decode_hex_cut_character_witness:
  "decode_hex 2 [0x61, 0xc3, 0xa9, 0x61] = Inl CharBoundary"
  using decode_hex_cut_character [of "[0x61]" 2 "0xc3" "0xa9" "0x61"] by simp

text \<open>
  A plus sign passes for a digit: a byte written as \<open>+\<close> and one digit decodes like a zero and
  that digit, so one account has several spellings.
\<close>

lemma decode_hex_plus_sign:
  assumes "hex_digit d \<noteq> None" "1 \<le> N"
  shows "decode_hex N (0x2b # d # rest) = decode_hex N (0x30 # d # rest)"
proof -
  let ?p = "0x2b # d # rest" and ?z = "0x30 # d # rest"
  have d: "d \<noteq> 0x78" "unat (the (hex_digit d)) < 256"
    using assms(1) unsigned_less [of "the (hex_digit d)", where 'a = nat] by (auto simp: hex_digit_def)
  have strip: "strip_0x ?p = ?p" "strip_0x ?z = ?z" using d(1) by (simp_all add: strip_0x_def)
  have boundary: "char_boundary ?p i = char_boundary ?z i" for i
    by (cases i) (auto simp: char_boundary_def)
  have slice: "str_slice ?p (i * 2) ((i + 1) * 2) = str_slice ?z (i * 2) ((i + 1) * 2)" if "1 \<le> i" for i
    using that boundary by (cases i) (simp_all add: str_slice_def)
  have tail: "decode_pairs ?p is r = decode_pairs ?z is r" if "\<forall>i \<in> set is. 1 \<le> i" for "is" r
    using that
  proof (induction "is" arbitrary: r)
    case (Cons i "is")
    then show ?case
      using slice [of i] by (cases "str_slice ?z (i * 2) ((i + 1) * 2)") (auto split: option.split)
  qed simp
  have radix: "u8_from_str_radix_16 [0x2b, d] = u8_from_str_radix_16 [0x30, d]"
    using assms(1) d(2) by (auto simp: u8_from_str_radix_16_def from_str_radix_16_def hex_digit_def [of "0x30"] Let_def)
  have "[0..<N] = 0 # [1..<N]" using assms(2) by (simp add: upt_conv_Cons)
  moreover have "decode_pairs ?p (0 # [1..<N]) r = decode_pairs ?z (0 # [1..<N]) r" for r
    using radix tail [of "[1..<N]"] boundary [of 2]
    by (simp add: str_slice_def split: option.split) (simp add: char_boundary_def)
  ultimately show ?thesis by (simp add: decode_hex_def strip Let_def)
qed



end
