(* ===== verification/Builder_Persist.thy ===== *)
theory Builder_Persist
  imports Files Builder_Agreement Merkle_Props Json_Props
begin

text \<open>
  The client's database (\<open>token-ledger-builder-v2\<close>, \<open>src/state.rs\<close>): a directory with one file per
  state, named by the hex of its root, and the file \<open>HEAD\<close> with the root of the current one. A
  file system is that of \<open>Files\<close>; codec and hex
  are parameters, with the laws \<open>stream_codec_ok\<close> of what the code reads back.
\<close>

section \<open>Streams\<close>

record stream_codec =
  enc_count :: "u64 \<Rightarrow> bytes"
  dec_count :: "bytes \<Rightarrow> (u64 \<times> bytes) option"
  enc_entry :: "key_value \<Rightarrow> bytes"
  dec_entry :: "bytes \<Rightarrow> (key_value \<times> bytes) option"
  enc_ids :: "token_id list \<Rightarrow> bytes"
  dec_ids :: "bytes \<Rightarrow> (token_id list \<times> bytes) option"

text \<open>Decoding what was encoded gives it back and leaves the rest of the stream.\<close>

definition stream_codec_ok :: "stream_codec \<Rightarrow> bool" where
  "stream_codec_ok SC \<longleftrightarrow>
     (\<forall>n r. dec_count SC (enc_count SC n @ r) = Some (n, r)) \<and>
     (\<forall>kv r. length (kv_key kv) = BALANCE_KEY_SIZE \<longrightarrow> dec_entry SC (enc_entry SC kv @ r) = Some (kv, r)) \<and>
     (\<forall>ids r. length ids < 2 ^ 32 \<longrightarrow> dec_ids SC (enc_ids SC ids @ r) = Some (ids, r))"

fun load_entries ::
    "hasher \<Rightarrow> stream_codec \<Rightarrow> nat \<Rightarrow> bytes \<Rightarrow> b_state_tree \<Rightarrow> panic + (b_state_tree \<times> bytes)" where
  "load_entries B SC 0 r t = Inr (t, r)"
| "load_entries B SC (Suc n) r t =
     (case dec_entry SC r of
        None \<Rightarrow> Inl UnwrapFailed
      | Some (v, r) \<Rightarrow> load_entries B SC n r (snd (bs_set B (kv_key v) (kv_value v) t)))"

definition bs_from_stream :: "hasher \<Rightarrow> stream_codec \<Rightarrow> bytes \<Rightarrow> panic + (b_state_tree \<times> bytes)" where
  "bs_from_stream B SC r =
     (case dec_count SC r of
        None \<Rightarrow> Inl UnwrapFailed
      | Some (nb_item, r) \<Rightarrow>
          bind_res (load_entries B SC (unat nb_item) r empty_b_state_tree) (\<lambda>(result, r).
            Inr (result\<lparr>bt_tree_witness := (bt_tree_witness result)
                   \<lparr>initial_hashes := hashes (tree (bt_state result))\<rparr>\<rparr>, r)))"

definition bs_serialize :: "stream_codec \<Rightarrow> b_state_tree \<Rightarrow> bytes" where
  "bs_serialize SC b =
     enc_count SC (of_nat (length (key_values (bt_state b)))) @
     concat (map (\<lambda>(_, v). enc_entry SC v) (key_values (bt_state b)))"

definition bk_from_stream :: "stream_codec \<Rightarrow> bytes \<Rightarrow> panic + b_known_tokens" where
  "bk_from_stream SC r =
     (case dec_ids SC r of
        None \<Rightarrow> Inl UnwrapFailed
      | Some (ids, r) \<Rightarrow> Inr \<lparr>bk_merkle = \<lparr>token_ids = ids\<rparr>, bk_witness = ids\<rparr>)"

definition bk_serialize :: "stream_codec \<Rightarrow> b_known_tokens \<Rightarrow> bytes" where
  "bk_serialize SC k = enc_ids SC (token_ids (bk_merkle k))"

section \<open>Files\<close>

definition HEAD_FILE :: bytes where
  "HEAD_FILE = [0x48, 0x45, 0x41, 0x44]" \<comment> \<open>\<open>"HEAD"\<close>\<close>

record hex_codec =
  hex_encode :: "bytes \<Rightarrow> bytes"
  hex_decode :: "bytes \<Rightarrow> bytes option"

definition read_head :: "hex_codec \<Rightarrow> path \<Rightarrow> file_system \<Rightarrow> panic + hash" where
  "read_head X db_location fs =
     (case files fs (db_location @ [HEAD_FILE]) of
        Some hash_str \<Rightarrow>
          (case hex_decode X hash_str of
             None \<Rightarrow> Inl UnwrapFailed
           | Some hash_vec \<Rightarrow> if length hash_vec = 32 then Inr hash_vec else Inl AssertFailed)
      | None \<Rightarrow> Inr EMPTY_HASH)"

definition from_db_path ::
    "hasher \<Rightarrow> stream_codec \<Rightarrow> hex_codec \<Rightarrow> path \<Rightarrow> hash option \<Rightarrow> file_system \<Rightarrow> panic + path b_state" where
  "from_db_path B SC X db_location head fs =
     bind_res (case head of Some h \<Rightarrow> Inr h | None \<Rightarrow> read_head X db_location fs) (\<lambda>head_hash.
       if head_hash \<noteq> EMPTY_HASH then
         (case files fs (db_location @ [hex_encode X head_hash]) of
            None \<Rightarrow> Inl UnwrapFailed
          | Some db_file \<Rightarrow>
              bind_res (bs_from_stream B SC db_file) (\<lambda>(balances, r).
              bind_res (bk_from_stream SC r) (\<lambda>known_tokens.
                Inr \<lparr>b_balances = balances, b_known_tokens = known_tokens, b_persist = Some db_location\<rparr>)))
       else Inr (set_new_persist_file db_location empty_b_state))"

text \<open>Called when the state is dropped; the root it reads records nothing that is used again.\<close>

definition b_serialize ::
    "hasher \<Rightarrow> stream_codec \<Rightarrow> hex_codec \<Rightarrow> path b_state \<Rightarrow> file_system \<Rightarrow> panic + file_system" where
  "b_serialize B SC X b fs =
     (case b_persist b of
        None \<Rightarrow> Inr fs
      | Some db_location \<Rightarrow>
          let (hash, b) = b_get_root B b;
              state_path = db_location @ [hex_encode X hash];
              head_path = db_location @ [HEAD_FILE]
          in bind_res
               (case files fs state_path of
                  Some _ \<Rightarrow> Inr fs
                | None \<Rightarrow> create_new state_path
                    (bs_serialize SC (b_balances b) @ bk_serialize SC (b_known_tokens b)) fs)
               (\<lambda>fs. case files fs head_path of
                  Some old \<Rightarrow>
                    Inr (fs\<lparr>files := (files fs)(head_path \<mapsto> overwrite_start (hex_encode X hash) old)\<rparr>)
                | None \<Rightarrow> create_new head_path (hex_encode X hash) fs))"

section \<open>Reading back an entry list\<close>

lemma recorded_none_without_initial:
  assumes "initial_hashes (bt_tree_witness t) = []" "tw_witness (bt_tree_witness t) = []"
  shows "initial_hashes (bt_tree_witness (snd (bs_set B k v t))) = []"
    "tw_witness (bt_tree_witness (snd (bs_set B k v t))) = []"
proof -
  show "initial_hashes (bt_tree_witness (snd (bs_set B k v t))) = []"
    using assms by (simp add: bs_set_eq record_access)
  have "bt_get (tw_witness (bt_tree_witness (snd (bs_set B k v t)))) n = None" for n
    using assms by (simp add: bs_set_eq record_access initial_hash_def)
  then show "tw_witness (bt_tree_witness (snd (bs_set B k v t))) = []"
    by (metis list.exhaust map_of_Cons_code(2) option.distinct(1) surj_pair)
qed

text \<open>The store that a loop of \<open>set\<close> over entries builds.\<close>

definition set_all :: "hasher \<Rightarrow> key_value list \<Rightarrow> state_tree \<Rightarrow> state_tree" where
  "set_all B kvs s = fold (\<lambda>kv s. snd (st_set B (kv_key kv) (kv_value kv) s)) kvs s"

lemma load_entries_encoded:
  assumes "stream_codec_ok SC" "\<forall>kv \<in> set kvs. length (kv_key kv) = BALANCE_KEY_SIZE"
    and "initial_hashes (bt_tree_witness t) = []" "tw_witness (bt_tree_witness t) = []"
      "key_values_witness t = []"
  shows "load_entries B SC (length kvs) (concat (map (enc_entry SC) kvs) @ r) t =
    Inr (\<lparr>bt_state = set_all B kvs (bt_state t),
          bt_tree_witness = \<lparr>initial_hashes = [], tw_witness = []\<rparr>, key_values_witness = []\<rparr>, r)"
  using assms(2-5)
proof (induction kvs arbitrary: t)
  case Nil
  then show ?case by (cases t; cases "bt_tree_witness t") (simp add: set_all_def)
next
  case (Cons kv kvs)
  let ?t = "snd (bs_set B (kv_key kv) (kv_value kv) t)"
  have "dec_entry SC (enc_entry SC kv @ concat (map (enc_entry SC) kvs) @ r)
      = Some (kv, concat (map (enc_entry SC) kvs) @ r)"
    using assms(1) Cons.prems(1) by (simp add: stream_codec_ok_def)
  moreover have "key_values_witness ?t = []" "bt_state ?t = snd (st_set B (kv_key kv) (kv_value kv) (bt_state t))"
    using Cons.prems(4) by (simp_all add: bs_set_eq)
  ultimately show ?case
    using Cons.IH [of ?t] Cons.prems recorded_none_without_initial [OF Cons.prems(2,3)]
    by (simp add: set_all_def)
qed

lemma set_all_store:
  assumes "inj_on (tree_index_from_key B) (kv_key ` set kvs \<union> K)" "distinct (map kv_key kvs)"
    and "\<forall>kv \<in> set kvs. leaf_key B (kv_key kv)" "store_ok B s"
    and "\<forall>ix kv. bt_get (key_values s) ix = Some kv \<longrightarrow> kv_key kv \<in> K"
    and "K \<inter> kv_key ` set kvs = {}"
  shows "store_ok B (set_all B kvs s) \<and>
    (\<forall>k. st_get B k (set_all B kvs s) =
       (case find (\<lambda>kv. kv_key kv = k) kvs of Some kv \<Rightarrow> Some (kv_value kv) | None \<Rightarrow> st_get B k s))"
  using assms
proof (induction kvs arbitrary: s K)
  case (Cons kv kvs)
  let ?k = "kv_key kv" and ?s = "snd (st_set B (kv_key kv) (kv_value kv) s)"
  have ok: "fst (st_set B ?k (kv_value kv) s)"
  proof -
    have False if e: "bt_get (key_values s) (tree_index_from_key B ?k) = Some kv'" for kv'
    proof -
      have "kv_key kv' \<in> K" "tree_index_from_key B (kv_key kv') = tree_index_from_key B ?k"
        using Cons.prems(4,5) e by (auto simp: store_ok_def)
      then have "kv_key kv' = ?k" by (intro inj_onD [OF Cons.prems(1)]) auto
      then show False using \<open>kv_key kv' \<in> K\<close> Cons.prems(6) by auto
    qed
    then show ?thesis by (auto simp: st_set_ok_iff split: option.split)
  qed
  have s: "store_ok B ?s" using Cons.prems(3,4) by (simp add: store_ok_set)
  have K: "\<forall>ix kv'. bt_get (key_values ?s) ix = Some kv' \<longrightarrow> kv_key kv' \<in> insert ?k K"
    using Cons.prems(5) by (auto simp: st_set_True [OF ok] split: if_splits)
  have "store_ok B (set_all B kvs ?s) \<and> (\<forall>k. st_get B k (set_all B kvs ?s) =
       (case find (\<lambda>kv. kv_key kv = k) kvs of Some kv \<Rightarrow> Some (kv_value kv) | None \<Rightarrow> st_get B k ?s))"
    using Cons.prems(1-3,6) by (intro Cons.IH [of "insert ?k K"] s K) (auto simp: insert_commute Un_commute)
  moreover have "find (\<lambda>kv'. kv_key kv' = ?k) kvs = None"
    using Cons.prems(2) by (auto simp: find_None_iff image_iff)
  ultimately show ?case by (auto simp: set_all_def st_get_set [OF ok] split: option.split)
qed (simp add: set_all_def)

lemma store_keys:
  assumes "store_ok B s"
  shows "distinct (map kv_key (map snd (key_values s)))"
    and "inj_on (tree_index_from_key B) (kv_key ` set (map snd (key_values s)))"
proof -
  let ?m = "key_values s"
  have ix: "tree_index_from_key B (kv_key kv) = ix" if "(ix, kv) \<in> set ?m" for ix kv
    using assms that bt_mem_iff [of ?m ix kv] by (simp add: store_ok_def)
  then have eq: "map (tree_index_from_key B \<circ> (kv_key \<circ> snd)) ?m = map fst ?m" by auto
  have "distinct (map fst ?m)" using assms by (simp add: store_ok_def bt_ok_distinct)
  then have d: "distinct (map (tree_index_from_key B) (map (kv_key \<circ> snd) ?m))"
    unfolding map_map eq .
  then show "distinct (map kv_key (map snd ?m))" using distinct_map by (metis map_map)
  show "inj_on (tree_index_from_key B) (kv_key ` set (map snd ?m))"
    using d unfolding distinct_map by (simp add: image_comp)
qed

lemma store_find:
  assumes "store_ok B s"
  shows "st_get B k s = (case find (\<lambda>kv. kv_key kv = k) (map snd (key_values s)) of
      Some kv \<Rightarrow> Some (kv_value kv) | None \<Rightarrow> None)"
proof (cases "find (\<lambda>kv. kv_key kv = k) (map snd (key_values s))")
  case None
  then have "bt_get (key_values s) ix \<noteq> Some kv" if "kv_key kv = k" for ix kv
    using that by (fastforce simp: find_None_iff dest: map_of_SomeD)
  then show ?thesis using None by (auto simp: st_get_eq split: option.split)
next
  case (Some kv)
  then obtain ix where "(ix, kv) \<in> set (key_values s)" "kv_key kv = k"
    by (auto simp: find_Some_iff in_set_conv_nth) (metis nth_mem prod.collapse)
  then have "bt_get (key_values s) ix = Some kv" "tree_index_from_key B k = ix"
    using assms bt_mem_iff [of "key_values s" ix kv] by (auto simp: store_ok_def)
  then show ?thesis using Some \<open>kv_key kv = k\<close> by (simp add: st_get_eq)
qed

lemma entry_count: "bt_ok (m :: (tree_index, 'v) btree_map) \<Longrightarrow> unat (of_nat (length m) :: u64) = length m"
proof -
  assume "bt_ok m"
  then have "length m = card (set (map fst m))"
    using distinct_card [OF bt_ok_distinct] by (metis length_map)
  also have "\<dots> \<le> card (UNIV :: tree_index set)" by (rule card_mono) simp_all
  finally have "length m \<le> 2 ^ 16" by (simp add: card_word)
  then show ?thesis by (simp add: unat_of_nat)
qed

lemma from_stream_serialized:
  assumes SC: "stream_codec_ok SC" and s: "store_ok B (bt_state b)"
    and size: "\<forall>kv \<in> snd ` set (key_values (bt_state b)). length (kv_key kv) = BALANCE_KEY_SIZE"
  shows "\<exists>b'. bs_from_stream B SC (bs_serialize SC b @ r) = Inr (b', r) \<and>
    store_ok B (bt_state b') \<and> key_values (bt_state b') = key_values (bt_state b) \<and>
    bt_tree_witness b' = \<lparr>initial_hashes = hashes (tree (bt_state b')), tw_witness = []\<rparr> \<and>
    key_values_witness b' = []"
proof -
  let ?m = "key_values (bt_state b)" and ?e = "map snd (key_values (bt_state b))"
  let ?s = "set_all B ?e empty_state_tree"
  have m: "bt_ok ?m" using s by (simp add: store_ok_def)
  have enc: "concat (map (\<lambda>(_, v). enc_entry SC v) ?m) = concat (map (enc_entry SC) ?e)"
    by (simp add: comp_def case_prod_unfold)
  have count: "dec_count SC (bs_serialize SC b @ r) =
      Some (of_nat (length ?m), concat (map (enc_entry SC) ?e) @ r)"
    using SC by (simp add: bs_serialize_def enc stream_codec_ok_def)
  have load: "load_entries B SC (length ?e) (concat (map (enc_entry SC) ?e) @ r) empty_b_state_tree =
      Inr (\<lparr>bt_state = ?s, bt_tree_witness = \<lparr>initial_hashes = [], tw_witness = []\<rparr>,
            key_values_witness = []\<rparr>, r)"
    using load_entries_encoded [OF SC, of ?e empty_b_state_tree B r] size
    by (simp add: empty_b_state_tree_def)
  have leaf: "\<forall>kv \<in> set ?e. leaf_key B (kv_key kv)"
    using s m by (auto simp: store_ok_def simp flip: bt_mem_iff)
  have none: "key_values empty_state_tree = []" by (simp add: empty_state_tree_def)
  have all: "store_ok B ?s \<and> (\<forall>k. st_get B k ?s = (case find (\<lambda>kv. kv_key kv = k) ?e of
       Some kv \<Rightarrow> Some (kv_value kv) | None \<Rightarrow> st_get B k empty_state_tree))"
    using store_keys [OF s] leaf none by (intro set_all_store [where K = "{}"]) simp_all
  then have "st_get B k ?s = st_get B k (bt_state b)" for k
    using store_find [OF s, of k] 
    by (simp add: st_get_eq [of B k empty_state_tree] none split: option.split)
  then have "bt_get (key_values ?s) = bt_get ?m"
    using store_entries_from_get [of B ?s "bt_state b"] all s by blast
  then have "key_values ?s = ?m" using all m by (intro bt_ext) (simp_all add: store_ok_def)
  then show ?thesis
    using load all by (simp add: bs_from_stream_def count entry_count [OF m])
qed

section \<open>Writing a state and opening it again\<close>

definition hex_ok :: "hex_codec \<Rightarrow> bool" where
  "hex_ok X \<longleftrightarrow> (\<forall>b. hex_decode X (hex_encode X b) = Some b \<and> length (hex_encode X b) = 2 * length b)"

text \<open>A database that can take a state with root \<open>r\<close>: no file is there yet, and \<open>HEAD\<close> is a root.\<close>

definition takes_state :: "hex_codec \<Rightarrow> path \<Rightarrow> hash \<Rightarrow> file_system \<Rightarrow> bool" where
  "takes_state X loc r fs \<longleftrightarrow>
     files fs (loc @ [hex_encode X r]) = None \<and> creatable fs (loc @ [hex_encode X r]) \<and>
     creatable fs (loc @ [HEAD_FILE]) \<and> (\<forall>old. files fs (loc @ [HEAD_FILE]) = Some old \<longrightarrow> length old = 64)"

definition stored_state :: "hasher \<Rightarrow> stream_codec \<Rightarrow> hex_codec \<Rightarrow> path \<Rightarrow> 'p b_state \<Rightarrow> file_system \<Rightarrow> file_system" where
  "stored_state B SC X loc b fs =
     (let hash = hex_encode X (fst (b_get_root B b))
      in fs\<lparr>files := (files fs)
           (loc @ [hash] \<mapsto> bs_serialize SC (b_balances b) @ bk_serialize SC (b_known_tokens b),
            loc @ [HEAD_FILE] \<mapsto> hash)\<rparr>)"

lemma hex_root:
  assumes "blake2b_ok B" "hex_ok X"
  shows "length (hex_encode X (fst (b_get_root B b))) = 64" "length (fst (b_get_root B b)) = 32"
    "hex_decode X (hex_encode X (fst (b_get_root B b))) = Some (fst (b_get_root B b))"
    "hex_encode X (fst (b_get_root B b)) \<noteq> HEAD_FILE"
proof -
  show len: "length (fst (b_get_root B b)) = 32" using assms(1) by (simp add: b_get_root_root get_root_def)
  then show hex: "length (hex_encode X (fst (b_get_root B b))) = 64"
    "hex_decode X (hex_encode X (fst (b_get_root B b))) = Some (fst (b_get_root B b))"
    using assms(2) by (simp_all add: hex_ok_def)
  then show "hex_encode X (fst (b_get_root B b)) \<noteq> HEAD_FILE" by (auto simp: HEAD_FILE_def)
qed

lemma serialize_new_state:
  assumes "blake2b_ok B" "hex_ok X" "b_persist b = Some loc"
    and "takes_state X loc (fst (b_get_root B b)) fs"
  shows "b_serialize B SC X b fs = Inr (stored_state B SC X loc b fs)"
proof -
  let ?r = "fst (b_get_root B b)"
  have same: "bs_serialize SC (b_balances (snd (b_get_root B b))) = bs_serialize SC (b_balances b)"
    "b_known_tokens (snd (b_get_root B b)) = b_known_tokens b"
    by (simp_all add: b_get_root_def bs_root_def bs_serialize_def Let_def case_prod_unfold)
  note hex = hex_root [OF assms(1,2), of b]
  show ?thesis
  proof (cases "files fs (loc @ [HEAD_FILE])")
    case None
    then show ?thesis
      using assms(3,4) hex(4)
      by (simp add: b_serialize_def create_new_def Let_def case_prod_unfold same stored_state_def takes_state_def)
  next
    case (Some old)
    then have "overwrite_start (hex_encode X ?r) old = hex_encode X ?r"
      using assms(4) hex(1) by (simp add: overwrite_same_length takes_state_def)
    then show ?thesis
      using Some assms(3,4) hex(4)
      by (simp add: b_serialize_def create_new_def Let_def case_prod_unfold same stored_state_def takes_state_def)
  qed
qed

lemma bk_from_serialized:
  assumes "stream_codec_ok SC" "length (token_ids (bk_merkle k)) < 2 ^ 32"
  shows "bk_from_stream SC (bk_serialize SC k) =
    Inr \<lparr>bk_merkle = bk_merkle k, bk_witness = token_ids (bk_merkle k)\<rparr>"
proof -
  have "\<forall>ids r. length ids < 2 ^ 32 \<longrightarrow> dec_ids SC (enc_ids SC ids @ r) = Some (ids, r)"
    using assms(1) unfolding stream_codec_ok_def by (elim conjE)
  then have "dec_ids SC (enc_ids SC (token_ids (bk_merkle k)) @ []) = Some (token_ids (bk_merkle k), [])"
    using assms(2) by (simp only: simp_thms)
  then show ?thesis by (simp add: bk_from_stream_def bk_serialize_def)
qed

lemma stored_state_opened:
  assumes B: "blake2b_ok B" and SC: "stream_codec_ok SC" and X: "hex_ok X"
    and s: "store_ok B (balances (shared_state b))"
    and size: "\<forall>kv \<in> snd ` set (key_values (balances (shared_state b))). length (kv_key kv) = BALANCE_KEY_SIZE"
    and ids: "length (token_ids (known_tokens (shared_state b))) < 2 ^ 32"
    and root: "fst (b_get_root B b) \<noteq> EMPTY_HASH"
  shows "\<exists>b'. from_db_path B SC X loc None (stored_state B SC X loc b fs) = Inr b' \<and>
    fst (b_get_root B b') = fst (b_get_root B b) \<and>
    key_values (balances (shared_state b')) = key_values (balances (shared_state b)) \<and>
    known_tokens (shared_state b') = known_tokens (shared_state b) \<and>
    store_ok B (balances (shared_state b')) \<and> fresh_recorder b' \<and> b_persist b' = Some loc"
proof -
  let ?r = "fst (b_get_root B b)" and ?fs = "stored_state B SC X loc b fs"
  let ?data = "bs_serialize SC (b_balances b) @ bk_serialize SC (b_known_tokens b)"
  have fs': "files ?fs (loc @ [hex_encode X ?r]) = Some ?data" "files ?fs (loc @ [HEAD_FILE]) = Some (hex_encode X ?r)"
    using hex_root(4) [OF B X, of b] by (simp_all add: stored_state_def Let_def)
  obtain t where t: "bs_from_stream B SC ?data = Inr (t, bk_serialize SC (b_known_tokens b))"
    "store_ok B (bt_state t)" "key_values (bt_state t) = key_values (bt_state (b_balances b))"
    "bt_tree_witness t = \<lparr>initial_hashes = hashes (tree (bt_state t)), tw_witness = []\<rparr>"
    "key_values_witness t = []"
    using from_stream_serialized [OF SC, of B "b_balances b"] s size by (auto simp: shared_state_def)
  let ?b = "\<lparr>b_balances = t, b_known_tokens = \<lparr>bk_merkle = bk_merkle (b_known_tokens b),
      bk_witness = token_ids (bk_merkle (b_known_tokens b))\<rparr>, b_persist = Some loc\<rparr>"
  have tokens: "length (token_ids (bk_merkle (b_known_tokens b))) < 2 ^ 32"
    using ids by (simp add: shared_state_def)
  have restore: "from_db_path B SC X loc None ?fs = Inr ?b"
    using fs' hex_root(2,3) [OF B X, of b] root t(1)
    by (simp add: from_db_path_def read_head_def bk_from_serialized [OF SC tokens])
  have "st_root (bt_state t) = st_root (bt_state (b_balances b))"
    using t(2,3) s by (simp add: st_root_ref shared_state_def)
  then have "fst (b_get_root B ?b) = ?r"
    by (simp add: b_get_root_root get_root_def shared_state_def known_tokens_merkle_value_def)
  moreover have "fresh_recorder ?b" using t by (simp add: fresh_recorder_def)
  ultimately show ?thesis
    using restore t(2,3) by (intro exI [of _ ?b]) (simp add: shared_state_def)
qed

section \<open>Property\<close>


fun decode_ids :: "nat \<Rightarrow> bytes \<Rightarrow> token_id list \<times> bytes" where
  "decode_ids 0 r = ([], r)"
| "decode_ids (Suc n) r = (let (ids, rest) = decode_ids n (drop 4 r) in (from_le_bytes (take 4 r) # ids, rest))"

lemma decode_ids_encoded: "decode_ids (length ids) (concat (map (to_le_bytes 4) ids) @ r) = (ids, r)"
  by (induction ids) simp_all

definition demo_stream :: stream_codec where
  "demo_stream =
     \<lparr>enc_count = to_le_bytes 8, dec_count = (\<lambda>r. Some (from_le_bytes (take 8 r), drop 8 r)),
      enc_entry = (\<lambda>kv. to_le_bytes 8 (kv_value kv) @ kv_key kv),
      dec_entry = (\<lambda>r. Some (\<lparr>kv_value = from_le_bytes (take 8 r), kv_key = take 40 (drop 8 r)\<rparr>, drop 48 r)),
      enc_ids = (\<lambda>ids. to_le_bytes 4 (of_nat (length ids) :: u32) @ concat (map (to_le_bytes 4) ids)),
      dec_ids = (\<lambda>r. Some (decode_ids (unat (from_le_bytes (take 4 r) :: u32)) (drop 4 r)))\<rparr>"

definition demo_hex :: hex_codec where
  "demo_hex = \<lparr>hex_encode = lower_hex,
     hex_decode = (\<lambda>s. case decode_hex (length s div 2) s of Inr (Inr b) \<Rightarrow> Some b | _ \<Rightarrow> None)\<rparr>"

lemma demo_stream_ok: "stream_codec_ok demo_stream"
  by (auto simp: stream_codec_ok_def demo_stream_def BALANCE_KEY_SIZE_def decode_ids_encoded unat_of_nat)

lemma demo_hex_ok: "hex_ok demo_hex"
proof -
  have "length (lower_hex b) = 2 * length b" for b by (induction b) (simp_all add: lower_hex_def)
  then show ?thesis using decode_hex_lower by (simp add: hex_ok_def demo_hex_def)
qed

definition demo_saved :: "path b_state" where
  "demo_saved =
     \<lparr>b_balances = empty_b_state_tree\<lparr>bt_state :=
        snd (st_set demo_hash (balance_key 1 (demo_account 1)) 100 empty_state_tree)\<rparr>,
      b_known_tokens = \<lparr>bk_merkle = \<lparr>token_ids = [1]\<rparr>, bk_witness = [1]\<rparr>, b_persist = Some []\<rparr>"

lemma token_root_nonempty:
  assumes "blake2b_ok B" "blake2b_nonzero B" "token_ids (known_tokens s) \<noteq> []"
  shows "get_root B s \<noteq> EMPTY_HASH"
proof -
  let ?h = "hash_sequence B token_merkle_value (token_ids (known_tokens s))"
  have "token_merkle_value t \<noteq> []" for t by (metis length_token_merkle_value list.size(3) zero_neq_numeral)
  then have "concat (map token_merkle_value (token_ids (known_tokens s))) \<noteq> []"
    using assms(3) by (cases "token_ids (known_tokens s)") simp_all
  then have "?h \<noteq> EMPTY_HASH" using assms(2) unfolding hash_sequence_def blake2b_nonzero_def by blast
  moreover have "?h \<noteq> []" using assms(1) by (auto simp: hash_sequence_def blake2b_ok_def dest: arg_cong [where f = length])
  ultimately have "hash_pair B (st_root (balances s)) ?h \<noteq> EMPTY_HASH"
    by (intro hash_pair_nonempty [OF assms(2)]) blast+
  then show ?thesis using assms(3) by (simp add: get_root_def known_tokens_merkle_value_def)
qed


end
