(* ===== verification/Client_Main.thy ===== *)
theory Client_Main
  imports Client_Node Builder_Persist
begin

text \<open>
  The command line client (\<open>token-ledger-builder-v2\<close>, \<open>src/main.rs\<close>): its arguments, the batch it
  reads, the witness it computes on the database, and the packages it submits. Argument parsing is
  done by \<open>clap\<close>; \<open>client_args\<close> is what it hands over. Printing is left out.
\<close>

section \<open>The service id\<close>

text \<open>The encodings of the characters \<open>str::trim\<close> removes.\<close>

definition white_space :: "str list" where
  "white_space =
     [[0x09], [0x0a], [0x0b], [0x0c], [0x0d], [0x20], [0xc2, 0x85], [0xc2, 0xa0], [0xe1, 0x9a, 0x80],
      [0xe2, 0x80, 0x80], [0xe2, 0x80, 0x81], [0xe2, 0x80, 0x82], [0xe2, 0x80, 0x83], [0xe2, 0x80, 0x84],
      [0xe2, 0x80, 0x85], [0xe2, 0x80, 0x86], [0xe2, 0x80, 0x87], [0xe2, 0x80, 0x88], [0xe2, 0x80, 0x89],
      [0xe2, 0x80, 0x8a], [0xe2, 0x80, 0xa8], [0xe2, 0x80, 0xa9], [0xe2, 0x80, 0xaf], [0xe2, 0x81, 0x9f],
      [0xe3, 0x80, 0x80]]"

definition starts_with :: "str \<Rightarrow> str \<Rightarrow> bool" where
  "starts_with p s \<longleftrightarrow> take (length p) s = p"

definition leading :: "str list \<Rightarrow> str \<Rightarrow> nat" where
  "leading ps s = (case find (\<lambda>p. starts_with p s) ps of None \<Rightarrow> 0 | Some p \<Rightarrow> length p)"

text \<open>Each round drops one of the \<open>ps\<close> from the front; more rounds than bytes are never needed.\<close>

fun strip_all :: "nat \<Rightarrow> str list \<Rightarrow> str \<Rightarrow> str" where
  "strip_all 0 ps s = s"
| "strip_all (Suc n) ps s = (if leading ps s = 0 then s else strip_all n ps (drop (leading ps s) s))"

definition trim :: "str \<Rightarrow> str" where
  "trim s =
     (let s = strip_all (length s) white_space s
      in rev (strip_all (length s) (map rev white_space) (rev s)))"

definition parse_service_id_hex :: "str \<Rightarrow> u32 option" where
  "parse_service_id_hex input =
     (let trimmed = trim input;
          hex_part = (if starts_with [0x30, 0x78] trimmed then drop 2 trimmed
                      else if starts_with [0x30, 0x58] trimmed then drop 2 trimmed
                      else trimmed)
      in if hex_part = [] then None
         else map_option of_nat (from_str_radix_16 (2 ^ 32) hex_part))"

section \<open>Arguments and input\<close>

record client_args =
  arg_input :: "path option"
  arg_output :: "path option"
  arg_preimage :: bool
  arg_segment :: bool
  arg_connect_rpc :: bool
  arg_service :: "str option"
  arg_head :: "str option"

definition read_ops_from_file ::
    "(bytes \<Rightarrow> string + signed_operation_json list) \<Rightarrow> path \<Rightarrow> file_system \<Rightarrow> panic + signed_operation list" where
  "read_ops_from_file from_slice p fs =
     bind_res (read_file p fs) (\<lambda>input_vec.
     bind_res (parse_signed_operations from_slice input_vec) (\<lambda>parsed.
       case parsed of Inl e \<Rightarrow> Inl UnwrapFailed | Inr operations \<Rightarrow> Inr operations))"

text \<open>
  \<open>compute_transition_witness\<close>, with the write of the database when the state is dropped at its end.
\<close>

definition compute_transition_witness ::
    "hasher \<Rightarrow> stream_codec \<Rightarrow> hex_codec \<Rightarrow> path \<Rightarrow> hash option \<Rightarrow> signed_operation list \<Rightarrow>
       file_system \<Rightarrow> panic + (witness \<times> file_system)" where
  "compute_transition_witness B SC X db_path override_head operations fs =
     bind_res (from_db_path B SC X db_path override_head fs) (\<lambda>state.
     let (initial_root, state) = b_get_root B state in
     bind_res (state_transition (builder_ops B) operations state) (\<lambda>state.
     let (witness, state) = take_witness state;
         (new_root, state) = b_get_root B state in
     bind_res (b_serialize B SC X state fs) (\<lambda>fs. Inr (witness, fs))))"

section \<open>The packages\<close>

text \<open>The payload that carries the batch: the witness goes into it or beside it.\<close>

definition batch_payload ::
    "delivery_mode \<Rightarrow> execution_mode \<Rightarrow> signed_operation list \<Rightarrow> witness \<Rightarrow> payload \<times> witness option" where
  "batch_payload delivery execution operations witness =
     (case delivery of
        Extrinsic \<Rightarrow>
          (\<lparr>pl_delivery = delivery, pl_execution = execution, pl_operations = operations,
            pl_witness = None\<rparr>, Some witness)
      | Direct \<Rightarrow>
          (\<lparr>pl_delivery = delivery, pl_execution = execution, pl_operations = operations,
            pl_witness = Some witness\<rparr>, None))"

definition second_payload :: payload where
  "second_payload =
     \<lparr>pl_delivery = Direct, pl_execution = Deferred, pl_operations = [], pl_witness = None\<rparr>"

text \<open>
  The end of \<open>main\<close>. \<open>service_id\<close> is that of the connection details, which exist with \<open>--connect-rpc\<close>
  only. The nodes answer the first and the second submission.
\<close>

definition submit_packages ::
    "client_env \<Rightarrow> node \<times> node \<Rightarrow> path option \<Rightarrow> bool \<Rightarrow> delivery_mode \<Rightarrow> u32 option \<Rightarrow>
       signed_operation list \<Rightarrow> witness \<Rightarrow> unit run" where
  "submit_packages E nodes output_path with_segments delivery service_id operations witness =
     (if \<not> with_segments then
        let (p, extrinsics) = batch_payload delivery Immediate operations witness
        in case service_id of
             Some conn \<Rightarrow>
               bind_run (create_and_submit_package E (fst nodes) output_path p extrinsics 0 conn None)
                 (\<lambda>_. return_run ())
           | None \<Rightarrow> return_run ()
      else
        let (first_payload, extrinsics) = batch_payload delivery Deferring operations witness
        in case service_id of
             Some conn \<Rightarrow>
               bind_run (create_and_submit_package E (fst nodes) output_path first_payload extrinsics 1 conn None)
                 (\<lambda>first_package_hash.
               bind_run (create_and_submit_package E (snd nodes) output_path second_payload None 0 conn
                   (Some first_package_hash))
                 (\<lambda>_. return_run ()))
           | None \<Rightarrow> return_run ())"

section \<open>main\<close>

text \<open>\<open>hex::decode\<close>, \<open>unwrap\<close> and the conversion to an array of 32 bytes.\<close>

definition parse_head :: "hex_codec \<Rightarrow> str option \<Rightarrow> panic + hash option" where
  "parse_head X head =
     (case head of
        None \<Rightarrow> Inr None
      | Some head_str \<Rightarrow>
          (case hex_decode X head_str of
             None \<Rightarrow> Inl UnwrapFailed
           | Some hash \<Rightarrow> if length hash = 32 then Inr (Some hash) else Inl UnwrapFailed))"

text \<open>\<open>Some\<close> when \<open>main\<close> goes on; with \<open>--connect-rpc\<close> it goes on with a service id.\<close>

definition check_service :: "client_args \<Rightarrow> panic + u32 option option" where
  "check_service args =
     (if \<not> arg_connect_rpc args then Inr (Some None)
      else case arg_service args of
             None \<Rightarrow> Inr None
           | Some s \<Rightarrow>
               (case parse_service_id_hex s of None \<Rightarrow> Inl UnwrapFailed | Some service \<Rightarrow> Inr (Some (Some service))))"

definition client_main ::
    "hasher \<Rightarrow> stream_codec \<Rightarrow> hex_codec \<Rightarrow> (bytes \<Rightarrow> string + signed_operation_json list) \<Rightarrow>
       client_env \<Rightarrow> node \<times> node \<Rightarrow> client_args \<Rightarrow> unit run" where
  "client_main B SC X from_slice E nodes args =
     (case arg_input args of
        None \<Rightarrow> return_run ()
      | Some input_path \<Rightarrow>
          if \<not> arg_connect_rpc args \<and> arg_output args = None then return_run ()
          else case check_service args of
            Inl panic \<Rightarrow> panic_run panic
          | Inr None \<Rightarrow> return_run ()
          | Inr (Some opt_service) \<Rightarrow>
              (case parse_head X (arg_head args) of
                 Inl panic \<Rightarrow> panic_run panic
               | Inr override_head \<Rightarrow>
                   if arg_preimage args \<and> arg_segment args then return_run ()
                   else
                     bind_run (files_run (\<lambda>fs. bind_res (read_ops_from_file from_slice input_path fs)
                         (\<lambda>operations. Inr (operations, fs)))) (\<lambda>operations.
                     bind_run (files_run (compute_transition_witness B SC X [] override_head operations))
                       (\<lambda>witness.
                     let delivery = (if arg_connect_rpc args then Extrinsic else Direct) in
                     submit_packages E nodes (arg_output args) (arg_segment args) delivery opt_service
                       operations witness))))"

end
