(* ===== verification/Client_Database.thy ===== *)
theory Client_Database
  imports Client_Main
begin

text \<open>
  The client's database as an implementation of the ledger: a run of \<open>compute_transition_witness\<close>
  takes the state the database holds through the transition function of the service, and leaves a
  database that holds the result.
\<close>

section \<open>What is opened\<close>

lemma load_entries_recorder:
  assumes "load_entries B SC n r t = Inr (t', r')"
    and "initial_hashes (bt_tree_witness t) = []" "tw_witness (bt_tree_witness t) = []" "key_values_witness t = []"
  shows "tw_witness (bt_tree_witness t') = [] \<and> key_values_witness t' = []"
  using assms
proof (induction n arbitrary: r t)
  case (Suc n)
  then obtain v r1 where v: "dec_entry SC r = Some (v, r1)"
    and rest: "load_entries B SC n r1 (snd (bs_set B (kv_key v) (kv_value v) t)) = Inr (t', r')"
    by (auto split: option.splits)
  have "key_values_witness (snd (bs_set B (kv_key v) (kv_value v) t)) = []"
    using Suc.prems(4) by (simp add: bs_set_eq)
  then show ?case
    using Suc.IH [OF rest] recorded_none_without_initial [OF Suc.prems(2,3)] by blast
qed simp

lemma loaded_recorder:
  assumes "bs_from_stream B SC r = Inr (t, r')"
  shows "bt_tree_witness t = \<lparr>initial_hashes = hashes (tree (bt_state t)), tw_witness = []\<rparr> \<and>
    key_values_witness t = []"
proof -
  obtain n r1 t1 where count: "dec_count SC r = Some (n, r1)"
    and load: "load_entries B SC (unat n) r1 empty_b_state_tree = Inr (t1, r')"
    and t: "t = t1\<lparr>bt_tree_witness := (bt_tree_witness t1)\<lparr>initial_hashes := hashes (tree (bt_state t1))\<rparr>\<rparr>"
    using assms by (auto simp: bs_from_stream_def bind_res_Inr_iff split: option.splits)
  have "tw_witness (bt_tree_witness t1) = [] \<and> key_values_witness t1 = []"
    by (rule load_entries_recorder [OF load]) (simp_all add: empty_b_state_tree_def)
  then show ?thesis by (simp add: t)
qed

lemma loaded_tokens:
  "bk_from_stream SC r = Inr k \<Longrightarrow> bk_witness k = token_ids (bk_merkle k)"
  by (auto simp: bk_from_stream_def split: option.splits)

lemma opened_fresh:
  assumes "from_db_path B SC X loc head fs = Inr b"
  shows "fresh_recorder b \<and> b_persist b = Some loc"
proof -
  obtain h where h: "(case head of Some h \<Rightarrow> Inr h | None \<Rightarrow> read_head X loc fs) = Inr h"
    using assms by (auto simp: from_db_path_def bind_res_Inr_iff)
  show ?thesis
  proof (cases "h = EMPTY_HASH")
    case True
    then have "b = set_new_persist_file loc empty_b_state" using assms by (simp add: from_db_path_def h)
    then show ?thesis
      by (simp add: fresh_recorder_def set_new_persist_file_def empty_b_state_def empty_b_state_tree_def
          empty_state_tree_def empty_tree_def)
  next
    case False
    then obtain db t r k where "files fs (loc @ [hex_encode X h]) = Some db"
      and t: "bs_from_stream B SC db = Inr (t, r)" and k: "bk_from_stream SC r = Inr k"
      and b: "b = \<lparr>b_balances = t, b_known_tokens = k, b_persist = Some loc\<rparr>"
      using assms by (auto simp: from_db_path_def h bind_res_Inr_iff split: option.splits)
    show ?thesis
      using loaded_recorder [OF t] loaded_tokens [OF k] by (simp add: b fresh_recorder_def)
  qed
qed

section \<open>The run keeps the location of the database\<close>

lemma builder_persist:
  "b_persist (so_known_tokens_push (builder_ops B) t b) = b_persist b"
  "b_persist (snd (so_get_balance (builder_ops B) a t b)) = b_persist b"
  "so_set_balance (builder_ops B) a t v b = Inr b' \<Longrightarrow> b_persist b' = b_persist b"
  by (auto simp: builder_ops_def b_known_tokens_push_def b_get_balance_def b_set_balance_def Let_def
      split: prod.splits if_splits)

interpretation database: state_ops_total "builder_ops B"
    "\<lambda>b. client_inv B K b \<and> b_persist b = loc"
    "\<lambda>a t. is_bytes 32 a \<and> balance_key t a \<in> K" "\<lambda>b. tokens_of (shared_state b)"
    "\<lambda>b. balance_of B (shared_state b)" for B K loc
proof unfold_locales
  show "balance_of B (shared_state s') b u =
      (if b = a \<and> u = t then Some v else balance_of B (shared_state s) b u)"
    if "client_inv B K s \<and> b_persist s = loc" "is_bytes 32 a \<and> balance_key t a \<in> K"
      "so_set_balance (builder_ops B) a t v s = Inr s'" "is_bytes 32 b \<and> balance_key u b \<in> K"
    for s a t v s' b u
    by (rule client_total.set_bal) (use that in blast)+
  show "tokens_of (shared_state s') = tokens_of (shared_state s)"
    if "client_inv B K s \<and> b_persist s = loc" "is_bytes 32 a \<and> balance_key t a \<in> K"
      "so_set_balance (builder_ops B) a t v s = Inr s'" for s a t v s'
    by (rule client_total.set_toks) (use that in blast)+
  show "client_inv B K s' \<and> b_persist s' = loc"
    if "client_inv B K s \<and> b_persist s = loc" "is_bytes 32 a \<and> balance_key t a \<in> K"
      "so_set_balance (builder_ops B) a t v s = Inr s'" for s a t v s'
    using client_total.set_inv [of B K s a t v s'] that builder_persist(3) by auto
  show "\<exists>s'. so_set_balance (builder_ops B) a t v s = Inr s'"
    if "client_inv B K s \<and> b_persist s = loc" "is_bytes 32 a \<and> balance_key t a \<in> K" for s a t v
    by (rule client_total.set_total) (use that in blast)+
qed (auto simp: builder_persist client_total.contains client_total.push_toks client_total.push_bal
    client_total.get_bal client_total.get_toks client_total.get_frame
    intro: client_total.push_inv client_total.get_inv)

section \<open>A run on the database\<close>

lemma witness_persist:
  "b_persist (snd (b_get_root B b)) = b_persist b" "b_persist (snd (take_witness b)) = b_persist b"
  by (simp_all add: b_get_root_def take_witness_def Let_def case_prod_unfold)

lemma merkle_inv_same_entries:
  assumes "merkle_inv B K s" "store_ok B (balances s')" "key_values (balances s') = key_values (balances s)"
  shows "merkle_inv B K s'"
  using assms by (simp add: merkle_inv_def)

lemma merkle_inv_sizes:
  assumes "merkle_inv B K s" "\<forall>k \<in> K. length k = BALANCE_KEY_SIZE"
  shows "\<forall>kv \<in> snd ` set (key_values (balances s)). length (kv_key kv) = BALANCE_KEY_SIZE"
proof
  fix kv assume "kv \<in> snd ` set (key_values (balances s))"
  then obtain ix where "(ix, kv) \<in> set (key_values (balances s))" by auto
  moreover have "bt_ok (key_values (balances s))" using assms(1) by (simp add: merkle_inv_def store_ok_def)
  ultimately show "length (kv_key kv) = BALANCE_KEY_SIZE"
    using assms bt_mem_iff by (fastforce simp: merkle_inv_def)
qed

text \<open>The client's run on an opened state: it ends, in the state the service's transition computes.\<close>

lemma opened_run:
  assumes "blake2b_ok B" "blake2b_nonzero B" "fresh_recorder b0 \<and> b_persist b0 = Some loc"
    and "merkle_inv B K (shared_state b0)"
    and "\<forall>op \<in> set ops. op_slots (\<lambda>a t. is_bytes 32 a \<and> balance_key t a \<in> K) op"
    and "state_transition (merkle_ops B) ops (shared_state b0) = Inr s'"
  shows "\<exists>b1. state_transition (builder_ops B) ops (snd (b_get_root B b0)) = Inr b1 \<and>
    shared_state b1 = s' \<and> b_persist b1 = Some loc \<and> merkle_inv B K s'"
proof -
  have store: "store_ok B (balances (shared_state b0))" using assms(4) by (simp add: merkle_inv_def)
  note shared = client_start(1) [OF conjunct1 [OF assms(3)] store]
  have "recorded_keys (b_balances (snd (b_get_root B b0))) = {}"
    using assms(3) by (simp add: b_get_root_def bs_root_def fresh_recorder_def Let_def case_prod_unfold)
  then have "client_inv B K (snd (b_get_root B b0)) \<and> b_persist (snd (b_get_root B b0)) = Some loc"
    using assms(3,4) by (simp add: client_inv_def shared witness_persist)
  then obtain b1 where b1: "state_transition (builder_ops B) ops (snd (b_get_root B b0)) = Inr b1"
    "client_inv B K b1 \<and> b_persist b1 = Some loc"
    using database.transition_total [OF _ assms(5)] by blast
  have "shared_state b1 = s'"
    using client_run_shared [OF assms(1,2) conjunct1 [OF assms(3)] store b1(1)] assms(6) by simp
  then show ?thesis using b1 by (auto simp: client_inv_def)
qed

lemma database_step:
  assumes B: "blake2b_ok B" "blake2b_nonzero B" and SC: "stream_codec_ok SC" and X: "hex_ok X"
    and opened: "from_db_path B SC X loc head fs = Inr b0"
    and inv: "merkle_inv B K (shared_state b0)" and size: "\<forall>k \<in> K. length k = BALANCE_KEY_SIZE"
    and slots: "\<forall>op \<in> set ops. op_slots (\<lambda>a t. is_bytes 32 a \<and> balance_key t a \<in> K) op"
    and run: "state_transition (merkle_ops B) ops (shared_state b0) = Inr s'"
    and new: "takes_state X loc (get_root B s') fs" "get_root B s' \<noteq> EMPTY_HASH"
      "length (token_ids (known_tokens s')) < 2 ^ 32"
  shows "\<exists>w fs' b'. compute_transition_witness B SC X loc head ops fs = Inr (w, fs') \<and>
    from_db_path B SC X loc None fs' = Inr b' \<and> merkle_inv B K (shared_state b') \<and>
    key_values (balances (shared_state b')) = key_values (balances s') \<and>
    known_tokens (shared_state b') = known_tokens s' \<and>
    get_root B (shared_state b') = get_root B s' \<and>
    (\<forall>p. p \<noteq> loc @ [HEAD_FILE] \<longrightarrow> p \<noteq> loc @ [hex_encode X (get_root B s')] \<longrightarrow> files fs' p = files fs p)"
proof -
  obtain b1 where b1: "state_transition (builder_ops B) ops (snd (b_get_root B b0)) = Inr b1"
    "shared_state b1 = s'" "b_persist b1 = Some loc" "merkle_inv B K s'"
    using opened_run [OF B opened_fresh [OF opened] inv slots run] by blast
  let ?b = "snd (b_get_root B (snd (take_witness b1)))"
  have s': "shared_state ?b = s'"
    using client_start(1) [OF take_witness_fresh, of B b1] b1(2,4) by (simp add: merkle_inv_def)
  then have root: "fst (b_get_root B ?b) = get_root B s'" by (simp add: b_get_root_root)
  have loc: "b_persist ?b = Some loc" by (simp add: witness_persist b1(3))
  have "compute_transition_witness B SC X loc head ops fs =
      Inr (fst (take_witness b1), stored_state B SC X loc ?b fs)"
    using b1(1) serialize_new_state [OF B(1) X loc] new(1)
    by (simp add: compute_transition_witness_def opened root Let_def case_prod_unfold)
  moreover obtain b' where b': "from_db_path B SC X loc None (stored_state B SC X loc ?b fs) = Inr b'"
    "get_root B (shared_state b') = get_root B s'"
    "key_values (balances (shared_state b')) = key_values (balances s')"
    "known_tokens (shared_state b') = known_tokens s'" "store_ok B (balances (shared_state b'))"
    using stored_state_opened [OF B(1) SC X, of ?b loc fs] merkle_inv_sizes [OF b1(4) size] b1(4) new
    unfolding s' root by (auto simp: merkle_inv_def b_get_root_root)
  moreover have "files (stored_state B SC X loc ?b fs) p = files fs p"
    if "p \<noteq> loc @ [HEAD_FILE]" "p \<noteq> loc @ [hex_encode X (get_root B s')]" for p
    using that by (simp add: stored_state_def root Let_def)
  ultimately show ?thesis using merkle_inv_same_entries [OF b1(4)] by blast
qed


text \<open>A mint on a database that does not exist yet.\<close>

definition demo_files :: file_system where
  "demo_files = \<lparr>files = (\<lambda>_. None), creatable = (\<lambda>_. True)\<rparr>"

definition demo_minted :: state where
  "demo_minted =
     \<lparr>balances = snd (st_set demo_hash (balance_key 1 (demo_account 1)) 100 empty_state_tree),
      known_tokens = \<lparr>token_ids = [1]\<rparr>\<rparr>"

lemma demo_database:
  "from_db_path demo_hash demo_stream demo_hex [] None demo_files = Inr (set_new_persist_file [] empty_b_state)"
  "shared_state (set_new_persist_file [] empty_b_state) = empty_state"
  by (simp_all add: from_db_path_def read_head_def demo_files_def shared_state_def empty_b_state_def
      empty_b_state_tree_def empty_state_def set_new_persist_file_def)

lemma demo_minted_run:
  "state_transition (merkle_ops demo_hash) [\<lparr>operation = Mint (demo_account 1) 1 100, signature = sig\<rparr>] empty_state
     = Inr demo_minted"
proof -
  have ok: "fst (st_set demo_hash (balance_key 1 (demo_account 1)) 100 empty_state_tree)" by (rule st_set_empty_ok)
  have none: "st_get demo_hash k empty_state_tree = None" for k by (simp add: st_get_eq empty_state_tree_def)
  have "process_mint (merkle_ops demo_hash) (demo_account 1) 1 100 empty_state = Inr demo_minted"
    using ok by (simp add: process_mint_def merkle_ops_def known_tokens_contains_def token_contains_iff
        known_tokens_push_def push_token_def get_balance_def set_balance_Inr empty_state_def none
        demo_minted_def Let_def)
  then show ?thesis by (simp add: state_transition_def transition_step_def)
qed

lemma demo_room:
  "\<forall>k \<in> demo_keys. length k = BALANCE_KEY_SIZE"
  "merkle_inv demo_hash demo_keys (shared_state (set_new_persist_file ([] :: path) empty_b_state))"
  "get_root demo_hash demo_minted \<noteq> EMPTY_HASH" "length (token_ids (known_tokens demo_minted)) < 2 ^ 32"
  "is_bytes 32 (demo_account 1) \<and> balance_key 1 (demo_account 1) \<in> demo_keys"
  using demo_keys_ok
  by (auto simp: demo_keys_def length_balance_key demo_database token_root_nonempty demo_minted_def)


end
