(* ===== verification/Agreement_Props.thy ===== *)
theory Agreement_Props
  imports Builder_Agreement Merkle_Props
begin

text \<open>
  The properties that span the client and the service: their roots agree along a batch, an honest
  update is accepted by the chain, and the two cases in which the protocol fails: an entry that
  the batch creates and reads again, and an entry that a dishonest client leaves out.
\<close>

section \<open>Client and service agree\<close>

text \<open>
  C3. The witness taken after the client's run of a batch loads on the service, starts from the
  client's old root, and the service's run of the batch on it ends at the client's new root, if
  every recorded entry is one of the state before the batch.
\<close>

theorem client_service_agreement:
  assumes "blake2b_ok B" "blake2b_nonzero B"
    and "fresh_recorder b0" "store_ok B (balances (shared_state b0))"
    and "state_transition (builder_ops B) ops (snd (b_get_root B b0)) = Inr b1"
    and "\<forall>(k, v) \<in> set (key_value_balances (fst (take_witness b1))).
          st_get B k (balances (shared_state b0)) = Some v"
  shows "\<exists>p p'. from_witness B (fst (take_witness b1)) = Some p \<and>
    get_root B p = fst (b_get_root B b0) \<and>
    state_transition (merkle_ops B) ops p = Inr p' \<and>
    get_root B p' = fst (b_get_root B (snd (take_witness b1)))"
  using client_witness_followed [OF assms] by (simp add: b_get_root_root)

text \<open>A mint on the empty state reads one key that is not there.\<close>

lemma empty_b_state_fresh [simp]: "fresh_recorder empty_b_state"
  by (simp add: fresh_recorder_def empty_b_state_def empty_b_state_tree_def empty_state_tree_def
      empty_tree_def)

lemma empty_b_state_shared [simp]: "shared_state empty_b_state = empty_state"
  by (simp add: shared_state_def empty_b_state_def empty_b_state_tree_def empty_state_def)

lemma b_get_root_keys [simp]:
  "key_values_witness (b_balances (snd (b_get_root B b))) = key_values_witness (b_balances b)"
  "bt_state (b_balances (snd (b_get_root B b))) = bt_state (b_balances b)"
  "b_known_tokens (snd (b_get_root B b)) = b_known_tokens b"
  by (simp_all add: b_get_root_def bs_root_def Let_def case_prod_unfold)

definition demo_mint :: signed_operation where
  "demo_mint = demo_signed (admin demo_crypto) (Mint (demo_account 1) 1 100)"

lemma mint_on_empty:
  assumes "bt_state (b_balances b) = empty_state_tree" "key_values_witness (b_balances b) = []"
    "token_ids (bk_merkle (b_known_tokens b)) = []"
  shows "\<exists>b1. process_mint (builder_ops B) to t a b = Inr b1 \<and>
    key_values_witness (b_balances b1) = []"
proof -
  have none: "bt_get (key_values empty_state_tree) ix = None" "st_get B k empty_state_tree = None" for ix k
    by (simp_all add: empty_state_tree_def st_get_eq)
  show ?thesis
    using assms
    by (simp add: process_mint_def builder_ops_def b_known_tokens_contains_def token_contains_iff
        b_known_tokens_push_def b_get_balance_def b_set_balance_def bs_get_eq bs_set_eq none Let_def)
qed

lemma demo_mint_runs:
  "\<exists>b1 :: unit b_state. state_transition (builder_ops demo_hash) [demo_mint] (snd (b_get_root demo_hash empty_b_state)) = Inr b1 \<and>
     key_values_witness (b_balances b1) = []"
proof -
  obtain b1 :: "unit b_state" where "process_mint (builder_ops demo_hash) (demo_account 1) 1 100
        (snd (b_get_root demo_hash empty_b_state)) = Inr b1" "key_values_witness (b_balances b1) = []"
    using mint_on_empty [of "snd (b_get_root demo_hash empty_b_state)" demo_hash "demo_account 1" 1 100]
    by (auto simp: empty_b_state_def empty_b_state_tree_def)
  then show ?thesis by (simp add: demo_mint_def state_transition_def transition_step_def)
qed

theorem client_service_agreement_witness:
  "\<exists>b1 p p'. state_transition (builder_ops demo_hash) [demo_mint]
        (snd (b_get_root demo_hash empty_b_state)) = Inr (b1 :: unit b_state) \<and>
     from_witness demo_hash (fst (take_witness b1)) = Some p \<and>
     state_transition (merkle_ops demo_hash) [demo_mint] p = Inr p' \<and>
     get_root demo_hash p' = fst (b_get_root demo_hash (snd (take_witness b1)))"
proof -
  obtain b1 :: "unit b_state" where run: "state_transition (builder_ops demo_hash) [demo_mint]
      (snd (b_get_root demo_hash empty_b_state)) = Inr b1"
    and none: "key_values_witness (b_balances b1) = []"
    using demo_mint_runs by blast
  show ?thesis
    using client_service_agreement [OF demo_hash_ok demo_hash_nonzero empty_b_state_fresh _ run] none run
    by (fastforce simp: empty_state_def)
qed

section \<open>An honest update is accepted\<close>

lemma work_item_reports:
  "decode out = Some op \<Longrightarrow>
     reports decode [WorkItem \<lparr>wir_package = pkg, wir_result = Inr out\<rparr>] = [op]"
  by (simp add: reports_def map_filter_simps reported_def)

lemma accumulate_chain:
  assumes "storage_total S" "root_codec_ok RC" "decodes_roots decode"
    and "follow (client_root S RC s) (reports decode items) = Some r"
  shows "\<exists>s'. service_accumulate S RC decode items s = Inr (None, s') \<and> client_root S RC s' = r"
proof -
  obtain s' where run: "on_accumulate_items S RC decode items s = Inr s'"
    using round_returns [OF assms(1)] by blast
  then show ?thesis
    using round_moves [OF storage_total.axioms(1) [OF assms(1)] assms(2,3) run] assms(4)
    by (simp add: service_accumulate_def)
qed

lemma update_accepted:
  assumes "blake2b_ok (blake2b C)" "blake2b_nonzero (blake2b C)"
    and start: "fresh_recorder b0" "store_ok (blake2b C) (balances (shared_state b0))"
    and run: "state_transition (builder_ops (blake2b C)) ops (snd (b_get_root (blake2b C) b0)) = Inr b1"
    and recorded: "\<forall>(k, v) \<in> set (key_value_balances (fst (take_witness b1))).
          st_get (blake2b C) k (balances (shared_state b0)) = Some v"
    and admin: "vk_try_from C (admin C) = Some admin_key"
    and authorised: "list_all (authorised C admin_key) ops"
    and payload: "dec_payload CD payload = Some p" "pl_execution p = Immediate" "pl_operations p = ops"
      "deliver_witness CD H (pl_delivery p) (pl_witness p) = Inr (Some (fst (take_witness b1)))"
    and storage: "storage_total S" "root_codec_ok RC" "decodes_roots decode"
    and codec: "\<forall>r r'. length r = 32 \<longrightarrow> length r' = 32 \<longrightarrow> (let op = \<lparr>op_delivery = pl_delivery p, op_previous_root = r, op_new_root = r',
                                 op_exported_segments = []\<rparr>
                       in decode (enc_operation CD op) = Some op)"
    and current: "client_root S RC s = fst (b_get_root (blake2b C) b0)"
  shows "\<exists>out s'. service_refine C CD H payload = Inr (out, []) \<and>
    service_accumulate S RC decode [WorkItem \<lparr>wir_package = pkg, wir_result = Inr out\<rparr>] s
      = Inr (None, s') \<and>
    client_root S RC s' = fst (b_get_root (blake2b C) (snd (take_witness b1)))"
proof -
  let ?B = "blake2b C" and ?r = "fst (b_get_root (blake2b C) b0)"
  let ?r' = "fst (b_get_root (blake2b C) (snd (take_witness b1)))"
  let ?op = "\<lparr>op_delivery = pl_delivery p, op_previous_root = ?r, op_new_root = ?r',
      op_exported_segments = []\<rparr>"
  obtain st st' where st: "from_witness ?B (fst (take_witness b1)) = Some st" "get_root ?B st = ?r"
      "state_transition (merkle_ops ?B) ops st = Inr st'" "get_root ?B st' = ?r'"
    using client_witness_followed [OF assms(1,2) start run recorded] by (auto simp: b_get_root_root)
  have "refine_transition C CD H payload [] = Inr (Some (?r, ?r', length ops, pl_delivery p), [], [])"
    using st authorised payload(4)
    by (simp add: refine_transition_def payload refine_verified_Some_iff [OF admin] run_batch_Inr_iff)
  then have refined: "service_refine C CD H payload = Inr (enc_operation CD ?op, [])"
    by (simp add: service_refine_def refine_payload_def Let_def)
  have "length ?r = 32" "length ?r' = 32" using assms(1) by (simp_all add: b_get_root_root get_root_def)
  then have "decode (enc_operation CD ?op) = Some ?op" using codec by (simp add: Let_def)
  then have "follow (client_root S RC s)
      (reports decode [WorkItem \<lparr>wir_package = pkg, wir_result = Inr (enc_operation CD ?op)\<rparr>]) = Some ?r'"
    by (simp add: work_item_reports current)
  then show ?thesis using accumulate_chain [OF storage] refined by blast
qed


definition demo_client_codec :: "witness \<Rightarrow> codec" where
  "demo_client_codec w =
     \<lparr>dec_payload = (\<lambda>_. Some \<lparr>pl_delivery = Direct, pl_execution = Immediate,
        pl_operations = [demo_mint], pl_witness = Some w\<rparr>),
      dec_witness = (\<lambda>_. None), enc_segment = (\<lambda>_. []), dec_segment = (\<lambda>_. None),
      enc_operation = (\<lambda>op. op_previous_root op @ op_new_root op)\<rparr>"

lemma demo_mint_authorised:
  "list_all (authorised demo_service_crypto (admin demo_crypto)) [demo_mint]"
  using demo_batch_authorised by (simp add: demo_mint_def demo_batch_def)


section \<open>An entry that the batch creates and reads again\<close>

lemma load_into_empty:
  assumes "blake2b_ok B" "blake2b_nonzero B" "leaf_key B k"
    and empty: "\<forall>n. get_hash (tree t) n = EMPTY_HASH" "key_values t = []"
  shows "load_values B EMPTY_HASH ((k, v) # kvs) t = None"
proof -
  let ?ix = "tree_index_from_key B k" and ?h = "kv_merkle_value B \<lparr>kv_value = v, kv_key = k\<rparr>"
  have ok: "fst (st_set B k v t)" using empty(2) by (simp add: st_set_ok_iff)
  have "length ?h = 32" using assms(1) by simp
  then have h: "?h \<noteq> EMPTY_HASH" "?h \<noteq> []" using kv_merkle_value_nonempty [OF assms(2)] by auto
  have "65534 \<in> path_nodes ?ix" using assms(3) by (intro root_in_path) (simp add: leaf_key_def)
  then have "st_root (snd (st_set B k v t)) \<noteq> EMPTY_HASH"
    using tree_insert_nonempty [OF assms(2) h(1) assms(1) h(2)]
    by (simp add: st_set_True [OF ok] st_root_def tree_root_eq)
  then show ?thesis by simp
qed

text \<open>
  C30. On the empty state, a batch that reads an entry it created itself records the new entry, and
  the witness is rejected: a mint followed by a transfer from the minted account, all valid,
  gives the client a witness that the service cannot load.
\<close>

theorem read_back_entry_rejected:
  assumes "blake2b_ok B" "blake2b_nonzero B"
    and start: "fresh_recorder b0" "shared_state b0 = empty_state"
    and keys: "inj_on (tree_index_from_key B) K" "\<forall>k \<in> K. leaf_key B k"
    and ops: "\<forall>op \<in> set ops. op_slots (\<lambda>a t. is_bytes 32 a \<and> balance_key t a \<in> K) op"
    and run: "state_transition (builder_ops B) ops (snd (b_get_root B b0)) = Inr b1"
    and recorded: "key_value_balances (fst (take_witness b1)) \<noteq> []"
  shows "from_witness B (fst (take_witness b1)) = None"
proof -
  let ?b = "snd (b_get_root B b0)" and ?s0 = "balances (shared_state b0)" and ?f = "b_balances b1"
  have s0: "store_ok B ?s0" "\<And>n. get_hash (tree ?s0) n = EMPTY_HASH"
    using start(2) by (simp_all add: empty_state_def) (simp add: empty_state_tree_def)
  have inv0: "recorder_inv B ?s0 (b_balances b0)" using start(1) s0(1) by (rule fresh_recorder_inv)
  have root: "b_balances ?b = snd (bs_root (b_balances b0))"
    by (simp add: b_get_root_def Let_def case_prod_unfold)
  have client: "client_run B" using assms(1,2) by unfold_locales
  have shared: "shared_state ?b = empty_state"
    using start(2) by (simp add: shared_state_def)
  have "shared_rel B ?s0 (bk_witness (b_known_tokens ?b)) ?b (shared_state ?b)"
    by (simp add: shared_rel_def root bs_root(3) [OF inv0])
  then have inv1: "recorder_inv B ?s0 ?f"
    using client_run.run_shared [OF client run] by (simp add: shared_rel_def)
  have "client_inv B K ?b"
    using keys start(1) by (simp add: client_inv_def shared fresh_recorder_def)
  then have K: "recorded_keys ?f \<subseteq> K"
    using client_total.transition_total [OF _ ops] run by (fastforce simp: client_inv_def)
  have hash: "get_hash (tree (load_hashes (tw_witness (bt_tree_witness ?f)))) n = EMPTY_HASH" for n
    using inv1 s0(2)
    by (auto simp: get_hash_load_hashes recorder_inv_def split: option.split)
  obtain k v kvs where kvs: "key_values_witness ?f = (k, v) # kvs"
    using recorded by (metis list.exhaust surj_pair take_witness_fields(2))
  then have "leaf_key B k" using K keys(2) by auto
  then have "load_values B EMPTY_HASH (key_values_witness ?f)
      (load_hashes (tw_witness (bt_tree_witness ?f))) = None"
    unfolding kvs using hash by (intro load_into_empty [OF assms(1,2)]) simp_all
  then show ?thesis
    using hash by (simp add: from_witness_def st_init_from_witness_def Let_def st_root_def tree_root_eq)
qed

text \<open>A transfer of a known token records the entry of an account that has one.\<close>

lemma builder_get_records:
  "recorded_keys (b_balances (snd (so_get_balance (builder_ops B) a t b))) \<supseteq> recorded_keys (b_balances b)"
  "get_balance B a t (shared_state b) = Some v \<Longrightarrow>
     balance_key t a \<in> recorded_keys (b_balances (snd (so_get_balance (builder_ops B) a t b)))"
  by (auto simp: builder_get bs_get_content get_balance_def st_get_eq shared_state_def Let_def
      split: option.splits if_splits)

lemma transfer_records:
  assumes "process_transfer (builder_ops B) from to t a b = Inr b'"
    and "known_tokens_contains t (shared_state b)" "get_balance B from t (shared_state b) = Some v"
  shows "balance_key t from \<in> recorded_keys (b_balances b')"
proof -
  let ?b1 = "snd (so_get_balance (builder_ops B) from t b)"
  let ?b2 = "snd (so_get_balance (builder_ops B) to t ?b1)"
  have "balance_key t from \<in> recorded_keys (b_balances ?b1)"
    using assms(3) by (rule builder_get_records(2))
  moreover have "recorded_keys (b_balances ?b1) \<subseteq> recorded_keys (b_balances ?b2)"
    by (rule builder_get_records(1))
  moreover have "b' = ?b1 \<or> recorded_keys (b_balances b') = recorded_keys (b_balances ?b2)"
  proof -
    consider "b' = ?b1" | x v1 v2 where "so_set_balance (builder_ops B) from t v1 ?b2 = Inr x"
        "so_set_balance (builder_ops B) to t v2 x = Inr b'"
      using assms(1,2)
      by (auto simp: process_transfer_def builder_contains Let_def case_prod_unfold bind_res_Inr_iff
          split: if_splits)
    then show ?thesis by cases (simp_all add: builder_set(2))
  qed
  ultimately show ?thesis by blast
qed

lemma demo_batch_client_runs:
  "\<exists>b1 :: unit b_state. state_transition (builder_ops demo_hash) demo_batch
       (snd (b_get_root demo_hash empty_b_state)) = Inr b1 \<and>
     key_value_balances (fst (take_witness b1)) \<noteq> []"
proof -
  let ?M = "builder_ops demo_hash" and ?b = "snd (b_get_root demo_hash (empty_b_state :: unit b_state))"
  let ?mint = "process_mint ?M (demo_account 1) 1 100"
  let ?pay = "process_transfer ?M (demo_account 1) (demo_account 2) 1 30"
  have shared: "shared_state ?b = empty_state"
    using empty_b_state_shared by (simp add: shared_state_def)
  have inv: "client_inv demo_hash demo_keys ?b"
    using demo_keys_ok by (simp add: client_inv_def shared) (simp add: empty_b_state_def empty_b_state_tree_def)
  have ops: "\<forall>op \<in> set demo_batch. op_slots (\<lambda>a t. is_bytes 32 a \<and> balance_key t a \<in> demo_keys) op"
    by (auto simp: demo_batch_def demo_keys_def)
  obtain b1 where run: "state_transition ?M demo_batch ?b = Inr b1"
    using client_total.transition_total [OF inv ops] by blast
  have less: "demo_account 1 < demo_account 2"
    by (simp add: demo_account_def zero_bytes_def list_less_def lexord_append_leftI)
  obtain bm where bm: "?mint ?b = Inr bm" "?pay bm = Inr b1"
    using run less
    by (auto simp: demo_batch_def state_transition_def transition_step_def stage_transfer_def
        canonical_transfer_def bt_upsert_def settle_transfer_def Let_def bind_res_Inr_iff sint_u64)
  have slot: "is_bytes 32 (demo_account 1) \<and> balance_key 1 (demo_account 1) \<in> demo_keys"
    by (simp add: demo_keys_def)
  have "1 \<notin> tokens_of (shared_state ?b)" by (simp add: shared tokens_of_def empty_state_def)
  note minted = client_total.mint_new [OF inv slot this bm(1)]
  have "known_tokens_contains 1 (shared_state bm)"
    using minted(2) by (simp add: tokens_of_def known_tokens_contains_def token_contains_iff)
  moreover have "\<exists>v. get_balance demo_hash (demo_account 1) 1 (shared_state bm) = Some v"
    using minted(3) [OF slot] by (simp add: balance_of_def)
  ultimately have "balance_key 1 (demo_account 1) \<in> recorded_keys (b_balances b1)"
    using transfer_records [OF bm(2)] by blast
  then have "key_value_balances (fst (take_witness b1)) \<noteq> []" by auto
  then show ?thesis using run by blast
qed

theorem read_back_entry_rejected_witness:
  "\<exists>b1 :: unit b_state. state_transition (builder_ops demo_hash) demo_batch
       (snd (b_get_root demo_hash empty_b_state)) = Inr b1 \<and>
     from_witness demo_hash (fst (take_witness b1)) = None"
proof -
  obtain b1 :: "unit b_state" where run: "state_transition (builder_ops demo_hash) demo_batch
      (snd (b_get_root demo_hash empty_b_state)) = Inr b1"
    and rec: "key_value_balances (fst (take_witness b1)) \<noteq> []"
    using demo_batch_client_runs by blast
  have K: "inj_on (tree_index_from_key demo_hash) demo_keys" "\<forall>k \<in> demo_keys. leaf_key demo_hash k"
    using demo_keys_ok by simp_all
  have ops: "\<forall>op \<in> set demo_batch. op_slots (\<lambda>a t. is_bytes 32 a \<and> balance_key t a \<in> demo_keys) op"
    by (auto simp: demo_batch_def demo_keys_def)
  show ?thesis
    using read_back_entry_rejected [OF demo_hash_ok demo_hash_nonzero empty_b_state_fresh
        empty_b_state_shared K ops run rec] run by blast
qed

section \<open>An entry that a dishonest client leaves out\<close>

text \<open>A state loaded from honest hashes and the sender's entry alone.\<close>

lemma load_sender_only:
  assumes s: "store_ok B (balances s)" and bal: "get_balance B from t s = Some a"
    and hashes: "agree_on (sibling_nodes (tree_index_from_key B (balance_key t from)) \<union> N \<union> {65534})
        (tree (load_hashes hs)) (tree (balances s))"
  shows "\<exists>p. from_witness B \<lparr>wit_hashes = hs, key_value_balances = [(balance_key t from, a)],
        wit_token_ids = token_ids (known_tokens s)\<rparr> = Some p \<and>
      known_tokens p = known_tokens s \<and>
      covers (sibling_nodes (tree_index_from_key B (balance_key t from)) \<union> N \<union> {65534})
        {tree_index_from_key B (balance_key t from)} (balances p) (balances s) \<and>
      (\<forall>ix. ix \<noteq> tree_index_from_key B (balance_key t from) \<longrightarrow> bt_get (key_values (balances p)) ix = None)"
proof -
  let ?k = "balance_key t from" and ?ix = "tree_index_from_key B (balance_key t from)"
  let ?N = "sibling_nodes ?ix \<union> N \<union> {65534}" and ?t = "load_hashes hs"
  have r: "st_root ?t = st_root (balances s)"
    using hashes by (simp add: agree_on_def st_root_def tree_root_eq)
  obtain p where p: "load_values B (st_root (balances s)) [(?k, a)] ?t = Some p"
    "agree_on ?N (tree p) (tree (balances s))"
    and entries: "\<And>ix. bt_get (key_values p) ix =
        (if ix \<in> tree_index_from_key B ` fst ` set [(?k, a)] then bt_get (key_values (balances s)) ix else None)"
    using load_honest [OF s _ _ hashes, of "[(?k, a)]"] bal by (force simp: get_balance_def Let_def)
  have "st_init_from_witness B hs [(?k, a)] = Some p"
    unfolding st_init_from_witness_def Let_def r by (rule p(1))
  then show ?thesis
    using p(2) by (auto simp: from_witness_def covers_def entries known_tokens.defs)
qed

text \<open>
  Two writes on a store and on a partial copy of it that holds the first entry only: both succeed
  on both, the roots stay equal and the second key holds what was written.
\<close>

lemma sender_only_writes:
  assumes p: "known_tokens p = known_tokens s"
    "covers (sibling_nodes (tree_index_from_key B (balance_key t from)) \<union>
        sibling_nodes (tree_index_from_key B (balance_key t to)) \<union> {65534})
      {tree_index_from_key B (balance_key t from)} (balances p) (balances s)"
    "bt_get (key_values (balances p)) (tree_index_from_key B (balance_key t to)) = None"
    and e: "bt_get (key_values (balances s)) (tree_index_from_key B (balance_key t from)) = Some kvf" "kv_key kvf = balance_key t from"
    "bt_get (key_values (balances s)) (tree_index_from_key B (balance_key t to)) = Some kvt" "kv_key kvt = balance_key t to"
    and ne: "balance_key t from \<noteq> balance_key t to"
  shows "\<exists>s1 s2 p1 p2. set_balance B from t b s = Inr s1 \<and> set_balance B from t b p = Inr p1 \<and>
    set_balance B to t x s1 = Inr s2 \<and> set_balance B to t x p1 = Inr p2 \<and>
    get_root B p2 = get_root B s2 \<and> get_balance B to t s2 = Some x"
proof -
  let ?kf = "balance_key t from" and ?kt = "balance_key t to"
  let ?f = "tree_index_from_key B ?kf" and ?i = "tree_index_from_key B ?kt"
  let ?N = "sibling_nodes ?f \<union> sibling_nodes ?i \<union> {65534}"
  have fi: "?f \<noteq> ?i" using e ne by auto
  define s1 where "s1 = s\<lparr>balances := snd (st_set B ?kf b (balances s))\<rparr>"
  define p1 where "p1 = p\<lparr>balances := snd (st_set B ?kf b (balances p))\<rparr>"
  have okf: "fst (st_set B ?kf b (balances s))" "fst (st_set B ?kf b (balances p))"
    using covers_set(1) [OF p(2), of B ?kf b] e by (simp_all add: st_set_ok_iff)
  have set1: "set_balance B from t b s = Inr s1" "set_balance B from t b p = Inr p1"
    using okf by (simp_all add: set_balance_Inr s1_def p1_def)
  have c1: "agree_on ?N (tree (balances p1)) (tree (balances s1))"
    using covers_set(2) [OF p(2), of B ?kf b] by (simp add: covers_def s1_def p1_def)
  define s2 where "s2 = s1\<lparr>balances := snd (st_set B ?kt x (balances s1))\<rparr>"
  define p2 where "p2 = p1\<lparr>balances := snd (st_set B ?kt x (balances p1))\<rparr>"
  have okt: "fst (st_set B ?kt x (balances s1))" "fst (st_set B ?kt x (balances p1))"
    using fi e p(3) by (simp_all add: st_set_ok_iff s1_def p1_def st_set_True [OF okf(1)] st_set_True [OF okf(2)])
  have set2: "set_balance B to t x s1 = Inr s2" "set_balance B to t x p1 = Inr p2"
    using okt by (simp_all add: set_balance_Inr s2_def p2_def)
  have "agree_on ?N (tree (balances p2)) (tree (balances s2))"
    using agree_insert [OF _ c1, of ?i] by (auto simp: s2_def p2_def st_set_True [OF okt(1)] st_set_True [OF okt(2)])
  then have root2: "get_root B p2 = get_root B s2"
    using p(1) by (simp add: get_root_def agree_on_def st_root_def tree_root_eq s2_def p2_def s1_def p1_def)
  have "get_balance B to t s2 = Some x"
    using st_get_set [OF okt(1), of ?kt] by (simp add: get_balance_def s2_def)
  then show ?thesis using set1 set2 root2 by blast
qed

text \<open>
  C10. A missing entry counts as zero, whatever leaf the witness has there: with honest hashes for
  two accounts but only the sender's entry, a valid signed transfer is refined from the state's
  true root to the root of the state in which the receiver holds the amount sent and nothing of
  what it held before.
\<close>

theorem omitted_receiver_erased:
  assumes s: "store_ok B (balances s)" "t \<in> tokens_of s"
    and "get_balance B from t s = Some a" "get_balance B to t s = Some v"
    and op: "operation op = Transfer from to t x" "from \<noteq> to" "is_bytes 32 from" "is_bytes 32 to"
      "0 < unat x" "unat x < 2 ^ 63" "x \<le> a"
    and hashes: "agree_on (sibling_nodes (tree_index_from_key B (balance_key t from)) \<union>
          sibling_nodes (tree_index_from_key B (balance_key t to)) \<union> {65534})
        (tree (load_hashes hs)) (tree (balances s))"
  shows "\<exists>p p' s'.
    from_witness B \<lparr>wit_hashes = hs, key_value_balances = [(balance_key t from, a)],
        wit_token_ids = token_ids (known_tokens s)\<rparr> = Some p \<and>
    get_root B p = get_root B s \<and>
    state_transition (merkle_ops B) [op] p = Inr p' \<and> get_root B p' = get_root B s' \<and>
    bind_res (set_balance B from t (a - x) s) (set_balance B to t x) = Inr s' \<and>
    get_balance B to t s' = Some x"
proof -
  let ?kf = "balance_key t from" and ?kt = "balance_key t to"
  let ?f = "tree_index_from_key B ?kf" and ?i = "tree_index_from_key B ?kt"
  let ?N = "sibling_nodes ?f \<union> sibling_nodes ?i \<union> {65534}"
  have ne: "?kf \<noteq> ?kt" using op(2-4) by (simp add: is_bytes_def)
  obtain kvf kvt where e: "bt_get (key_values (balances s)) ?f = Some kvf" "kv_key kvf = ?kf"
    "bt_get (key_values (balances s)) ?i = Some kvt" "kv_key kvt = ?kt"
    using assms(3,4) by (auto simp: get_balance_def st_get_eq Let_def split: option.splits if_splits)
  then have fi: "?i \<noteq> ?f" using ne by auto
  obtain p where load: "from_witness B \<lparr>wit_hashes = hs, key_value_balances = [(?kf, a)],
        wit_token_ids = token_ids (known_tokens s)\<rparr> = Some p"
    and p: "known_tokens p = known_tokens s" "covers ?N {?f} (balances p) (balances s)"
      "bt_get (key_values (balances p)) ?i = None"
    using load_sender_only [OF s(1) assms(3) hashes] fi by metis
  have root: "get_root B p = get_root B s" using covers_root [OF p(2)] p(1) by (simp add: get_root_def)
  obtain s1 s2 p1 p2 where set1: "set_balance B from t (a - x) s = Inr s1" "set_balance B from t (a - x) p = Inr p1"
    and set2: "set_balance B to t x s1 = Inr s2" "set_balance B to t x p1 = Inr p2"
    and root2: "get_root B p2 = get_root B s2" and paid: "get_balance B to t s2 = Some x"
    using sender_only_writes [OF p(1) _ p(3) e ne, of "a - x" x] p(2) by blast
  have from_p: "get_balance B from t p = Some a"
    using covers_get [OF p(2), of B ?kf] assms(3) by (simp add: get_balance_def)
  have to_p: "get_balance B to t p = None"
    using p(3) by (simp add: get_balance_def st_get_eq)
  have "\<not> a < x" using op(7) by simp
  then have "process_transfer (merkle_ops B) from to t x p = Inr p2"
    using p(1) s(2) set1 set2 from_p to_p
    by (simp add: process_transfer_def merkle_ops_def Let_def known_tokens_contains_def
        token_contains_iff tokens_of_def)
  then have "state_transition (merkle_ops B) [op] p = Inr p2"
    unfolding single_transfer [OF op(1,2,5,6)] .
  then show ?thesis using load root root2 set1 set2 paid by auto
qed

lemma bt_ok_ins_upto: "bt_ok (hashes t) \<Longrightarrow> bt_ok (hashes (fst (ins_upto B t v i l)))"
  by (induction l) (auto simp: set_hash_def Let_def split: prod.split)

lemma bt_ok_tree_insert: "bt_ok (hashes t) \<Longrightarrow> bt_ok (hashes (tree_insert B ix v t))"
  using bt_ok_ins_upto [of t B v "unat ix" 15]
  by (cases "ins_upto B t v (unat ix) 15") (simp add: tree_insert_eq set_hash_def)

lemma bt_ok_st_set:
  "bt_ok (hashes (tree s)) \<Longrightarrow> bt_ok (hashes (tree (snd (st_set B k v s))))"
  by (cases "fst (st_set B k v s)") (simp_all add: st_set_True st_set_False bt_ok_tree_insert)

lemma load_own_hashes: "bt_ok (hashes t) \<Longrightarrow> agree_on N (tree (load_hashes (hashes t))) t"
  by (simp add: agree_on_def get_hash_def bt_rebuild)

definition demo_rich_state :: state where
  "demo_rich_state =
     \<lparr>balances = snd (st_set demo_hash (balance_key 1 (demo_account 1)) 100
        (snd (st_set demo_hash (balance_key 1 (demo_account 2)) 5 empty_state_tree))),
      known_tokens = \<lparr>token_ids = [1]\<rparr>\<rparr>"

theorem omitted_receiver_erased_witness:
  "\<exists>w p p' s'. get_balance demo_hash (demo_account 2) 1 demo_rich_state = Some 5 \<and>
     from_witness demo_hash w = Some p \<and> get_root demo_hash p = get_root demo_hash demo_rich_state \<and>
     state_transition (merkle_ops demo_hash)
       [demo_signed (demo_account 1) (Transfer (demo_account 1) (demo_account 2) 1 1)] p = Inr p' \<and>
     get_root demo_hash p' = get_root demo_hash s' \<and>
     get_balance demo_hash (demo_account 2) 1 s' = Some 1"
proof -
  let ?k1 = "balance_key 1 (demo_account 1)" and ?k2 = "balance_key 1 (demo_account 2)"
  let ?s1 = "snd (st_set demo_hash ?k2 5 empty_state_tree)"
  let ?hs = "hashes (tree (balances demo_rich_state))"
  have leaf: "leaf_key demo_hash ?k1" "leaf_key demo_hash ?k2"
    by (simp_all add: leaf_key_def demo_balance_index)
  have ok: "fst (st_set demo_hash ?k1 100 ?s1)"
    by (simp add: st_set_ok_iff st_set_True [OF st_set_empty_ok] demo_balance_index)
      (simp add: empty_state_tree_def)
  have s: "store_ok demo_hash (balances demo_rich_state)"
    using leaf by (simp add: demo_rich_state_def store_ok_set)
  have bal: "get_balance demo_hash (demo_account 1) 1 demo_rich_state = Some 100"
    "get_balance demo_hash (demo_account 2) 1 demo_rich_state = Some 5"
    using st_get_set [OF ok] st_get_set [OF st_set_empty_ok]
    by (simp_all add: get_balance_def demo_rich_state_def)
  have "bt_ok (hashes (tree empty_state_tree))" by (simp add: empty_state_tree_def empty_tree_def)
  then have "bt_ok ?hs" by (simp add: demo_rich_state_def bt_ok_st_set)
  then have hashes: "agree_on N (tree (load_hashes ?hs)) (tree (balances demo_rich_state))" for N
    by (rule load_own_hashes)
  have "\<exists>p p' s'.
    from_witness demo_hash \<lparr>wit_hashes = ?hs, key_value_balances = [(?k1, 100)],
        wit_token_ids = token_ids (known_tokens demo_rich_state)\<rparr> = Some p \<and>
    get_root demo_hash p = get_root demo_hash demo_rich_state \<and>
    state_transition (merkle_ops demo_hash)
       [demo_signed (demo_account 1) (Transfer (demo_account 1) (demo_account 2) 1 1)] p = Inr p' \<and>
    get_root demo_hash p' = get_root demo_hash s' \<and>
    bind_res (set_balance demo_hash (demo_account 1) 1 (100 - 1) demo_rich_state)
      (set_balance demo_hash (demo_account 2) 1 1) = Inr s' \<and>
    get_balance demo_hash (demo_account 2) 1 s' = Some 1"
    by (rule omitted_receiver_erased [OF s _ bal _ _ _ _ _ _ _ hashes])
      (simp_all add: tokens_of_def demo_rich_state_def)
  then show ?thesis using bal(2) by blast
qed

end
