(* ===== verification/Client_Props.thy ===== *)
theory Client_Props
  imports Client_Database Agreement_Props Refinement_Props
begin

text \<open>
  The properties of the command line client: which core gets a package, which service ids parse,
  what a run without a connection leaves behind, how the database and the chain come apart when a
  node refuses, and the way of a batch in two packages through the service.
\<close>

section \<open>The loop over the cores\<close>

definition cores_from :: "nat \<Rightarrow> u16 \<Rightarrow> u16 list" where
  "cores_from i max_core = map of_nat [i..<unat max_core]"

lemma submit_loop_from:
  assumes "i < unat max_core"
  shows "submit_loop submit max_core (of_nat i) =
    Inr (case find (\<lambda>c. \<not> isl (submit c)) (cores_from i max_core) of
           Some c \<Rightarrow> Inr c | None \<Rightarrow> Inl (projl (submit (max_core - 1))))"
  using assms
proof (induction "unat max_core - i" arbitrary: i)
  case (Suc n)
  let ?c = "of_nat i :: u16"
  have max: "unat max_core < 2 ^ 16" using unsigned_less [of max_core, where 'a = nat] by simp
  have c: "unat ?c = i" using Suc.prems max by (simp add: unat_of_nat)
  have lt: "?c < max_core" using Suc.prems c by (simp add: word_less_nat_alt)
  have ne: "max_core \<noteq> 0" using Suc.prems by auto
  have cs: "cores_from i max_core = ?c # cores_from (Suc i) max_core"
    using Suc.prems by (simp add: cores_from_def upt_conv_Cons)
  show ?case
  proof (cases "submit ?c")
    case (Inl e)
    show ?thesis
    proof (cases "(?c + 1) mod max_core = 0")
      case True
      have "Suc i = unat max_core"
      proof (rule ccontr)
        assume "Suc i \<noteq> unat max_core"
        then have lt1: "Suc i < unat max_core" using Suc.prems by simp
        have "unat (?c + 1) = Suc i" using lt1 max c by (simp add: unat_plus_if')
        then have "unat ((?c + 1) mod max_core) = Suc i" using lt1 by (simp add: unat_mod)
        then show False using True by simp
      qed
      moreover have "max_core - 1 = ?c"
      proof -
        have "max_core = of_nat (unat max_core)" by simp
        also have "\<dots> = ?c + 1" by (simp flip: \<open>Suc i = unat max_core\<close>)
        finally show ?thesis by simp
      qed
      moreover have "cores_from (Suc i) max_core = []" by (simp add: cores_from_def calculation(1))
      ultimately show ?thesis
        using True Inl ne by (simp add: submit_loop.simps [of submit max_core ?c] cs DEFAULT_CORE_def)
    next
      case False
      have "unat ((?c + 1) mod max_core) = Suc i" and "Suc i < unat max_core"
        using next_core [OF lt False] by (simp_all only: c Suc_eq_plus1)
      moreover have "x = of_nat (unat x)" for x :: u16 by simp
      ultimately have "(?c + 1) mod max_core = of_nat (Suc i)" "Suc i < unat max_core" by metis+
      then show ?thesis
        using Suc.hyps(1) [of "Suc i"] Suc.hyps(2) False Inl ne
        by (simp add: submit_loop.simps [of submit max_core ?c] cs DEFAULT_CORE_def)
    qed
  next
    case (Inr u)
    then show ?thesis by (simp add: submit_loop.simps [of submit max_core ?c] cs)
  qed
qed simp

text \<open>
  C20. The submission loop ends: it offers the package to the cores from the first on, each once,
  and returns the first that takes it, or the last core's error when none does.
\<close>

theorem submit_loop_first_core:
  assumes "0 < max_core"
  shows "submit_loop submit max_core DEFAULT_CORE =
    Inr (case find (\<lambda>c. \<not> isl (submit c)) (map of_nat [0..<unat max_core]) of
           Some c \<Rightarrow> Inr c | None \<Rightarrow> Inl (projl (submit (max_core - 1))))"
proof -
  have "0 < unat max_core" using assms by (simp add: word_less_nat_alt)
  then show ?thesis
    using submit_loop_from [of 0 max_core submit] by (simp add: cores_from_def DEFAULT_CORE_def)
qed

theorem submit_loop_first_core_witness:
  "submit_loop (\<lambda>c. if c = 1 then Inr () else Inl ''full'') 2 DEFAULT_CORE = Inr (Inr 1)"
  using submit_loop_first_core [of 2 "\<lambda>c. if c = 1 then Inr () else Inl ''full''"]
  by (simp add: upt_rec)

section \<open>Service ids\<close>

definition prefix_free :: "str list \<Rightarrow> bool" where
  "prefix_free ps \<longleftrightarrow> (\<forall>p \<in> set ps. p \<noteq> [] \<and> (\<forall>q \<in> set ps. starts_with p q \<longrightarrow> p = q))"

lemma starts_with_append:
  "starts_with p (q @ r) \<Longrightarrow> starts_with p q \<or> starts_with q p"
proof -
  assume s: "starts_with p (q @ r)"
  show ?thesis
  proof (cases "length p \<le> length q")
    case True
    then show ?thesis using s by (simp add: starts_with_def)
  next
    case False
    then have "p = q @ take (length p - length q) r" using s by (simp add: starts_with_def)
    then have "take (length q) p = q" by (metis append_eq_conv_conj)
    then show ?thesis by (simp add: starts_with_def)
  qed
qed

lemma leading_append:
  assumes "prefix_free ps" "q \<in> set ps"
  shows "leading ps (q @ r) = length q"
proof (cases "find (\<lambda>p. starts_with p (q @ r)) ps")
  case None
  then show ?thesis using assms(2) by (auto simp: find_None_iff starts_with_def)
next
  case (Some p)
  then have "p \<in> set ps" "starts_with p (q @ r)" by (auto simp: find_Some_iff)
  then have "p = q" using assms starts_with_append by (metis prefix_free_def)
  then show ?thesis using Some by (simp add: leading_def)
qed

lemma strip_all_concat:
  assumes "prefix_free ps" "set ws \<subseteq> set ps" "leading ps s = 0" "length ws \<le> n"
  shows "strip_all n ps (concat ws @ s) = s"
  using assms(2,4)
proof (induction ws arbitrary: n)
  case Nil
  then show ?case using assms(3) by (cases n) simp_all
next
  case (Cons w ws)
  then obtain m where n: "n = Suc m" by (cases n) simp_all
  have "w \<noteq> []" using Cons.prems(1) assms(1) by (auto simp: prefix_free_def)
  then show ?case
    using Cons leading_append [OF assms(1), of w "concat ws @ s"] by (simp add: n)
qed

lemma leading_none:
  assumes "prefix_free ps" "s \<noteq> []" "\<forall>p \<in> set ps. hd p \<noteq> hd s"
  shows "leading ps (s @ r) = 0"
proof -
  have "\<not> starts_with p (s @ r)" if "p \<in> set ps" for p
  proof
    assume "starts_with p (s @ r)"
    moreover have "p \<noteq> []" using that assms(1) by (auto simp: prefix_free_def)
    ultimately have "hd p = hd (s @ r)" by (metis starts_with_def hd_take length_greater_0_conv)
    then show False using that assms(2,3) by simp
  qed
  then have "find (\<lambda>p. starts_with p (s @ r)) ps = None" by (auto simp: find_None_iff)
  then show ?thesis by (simp add: leading_def)
qed

lemma length_concat_ge: "\<forall>w \<in> set ws. w \<noteq> [] \<Longrightarrow> length ws \<le> length (concat ws)"
proof (induction ws)
  case (Cons w ws)
  then show ?case by (cases w) (simp_all add: trans_le_add2)
qed simp

lemma prefix_free_code [code]:
  "prefix_free ps \<longleftrightarrow> list_all (\<lambda>p. p \<noteq> [] \<and> list_all (\<lambda>q. starts_with p q \<longrightarrow> p = q) ps) ps"
  by (simp add: prefix_free_def list_all_iff)

lemma white_space_codes:
  "prefix_free white_space" "prefix_free (map rev white_space)"
  "list_all (\<lambda>p. hex_digit (hd p) = None \<and> hex_digit (last p) = None) white_space"
  by code_simp+

lemma white_space_ends:
  "p \<in> set white_space \<Longrightarrow> hex_digit (hd p) = None \<and> hex_digit (last p) = None"
  using white_space_codes(3) by (simp add: list_all_iff)

lemma trim_hex:
  assumes "set ws1 \<subseteq> set white_space" "set ws2 \<subseteq> set white_space"
    and "s \<noteq> []" "hex_digit (hd s) \<noteq> None" "hex_digit (last s) \<noteq> None"
  shows "trim (concat ws1 @ s @ concat ws2) = s"
proof -
  have ne: "w \<noteq> []" if "w \<in> set white_space" for w
    using that white_space_codes(1) by (auto simp: prefix_free_def)
  have "leading white_space (s @ concat ws2) = 0"
    using assms(3,4) white_space_ends by (intro leading_none white_space_codes(1)) fastforce+
  then have "strip_all (length (concat ws1 @ s @ concat ws2)) white_space (concat ws1 @ s @ concat ws2) = s @ concat ws2"
    using assms(1) length_concat_ge [of ws1] ne
    by (intro strip_all_concat white_space_codes(1)) (auto simp: trans_le_add1 subset_iff)
  moreover have "strip_all (length (s @ concat ws2)) (map rev white_space) (rev (s @ concat ws2)) = rev s"
  proof -
    have eq: "rev (s @ concat ws2) = concat (map rev (rev ws2)) @ rev s" by (simp add: rev_concat)
    have "hd (rev w) \<noteq> hd (rev s)" if "w \<in> set white_space" for w
      using that assms(3,5) ne [OF that] white_space_ends [OF that] by (auto simp: hd_rev)
    then have "leading (map rev white_space) (rev s @ []) = 0"
      using assms(3) white_space_codes(2) by (intro leading_none) auto
    then show ?thesis
      unfolding eq using assms(2) white_space_codes(2) length_concat_ge [of ws2] ne
      by (intro strip_all_concat) (auto simp: subset_iff trans_le_add2)
  qed
  ultimately show ?thesis by (simp add: trim_def)
qed

text \<open>The number a string of hex digits writes.\<close>

definition hex_number :: "nat \<Rightarrow> str \<Rightarrow> nat" where
  "hex_number acc ds = foldl (\<lambda>a c. 16 * a + unat (the (hex_digit c))) acc ds"

lemma hex_number_simps [simp]:
  "hex_number acc [] = acc"
  "hex_number acc (c # cs) = hex_number (16 * acc + unat (the (hex_digit c))) cs"
  by (simp_all add: hex_number_def)

lemma hex_number_ge: "acc \<le> hex_number acc ds"
proof (induction ds arbitrary: acc)
  case (Cons c cs)
  show ?case using Cons.IH [of "16 * acc + unat (the (hex_digit c))"] by simp
qed simp

lemma hex_value_number:
  assumes "\<forall>c \<in> set ds. hex_digit c \<noteq> None" "acc < limit"
  shows "hex_value limit acc ds = (if hex_number acc ds < limit then Some (hex_number acc ds) else None)"
  using assms
proof (induction ds arbitrary: acc)
  case (Cons c cs)
  then obtain d where d: "hex_digit c = Some d" by auto
  show ?case
    using Cons.IH [of "16 * acc + unat d"] Cons.prems hex_number_ge [of "16 * acc + unat d" cs]
    by (auto simp: d Let_def)
qed simp

text \<open>
  C28. A service id given as hex digits, in either case, with or without a prefix and with white space
  around it, is read exactly when its value fits in 32 bits, whatever the number of leading zeros.
\<close>

theorem service_id_read:
  assumes "set ws1 \<subseteq> set white_space" "set ws2 \<subseteq> set white_space"
    and "prefix \<in> {[], [0x30, 0x78], [0x30, 0x58]}"
    and "ds \<noteq> []" "\<forall>c \<in> set ds. hex_digit c \<noteq> None"
  shows "parse_service_id_hex (concat ws1 @ prefix @ ds @ concat ws2) =
    (if hex_number 0 ds < 2 ^ 32 then Some (of_nat (hex_number 0 ds)) else None)"
proof -
  have zero: "hex_digit 0x30 = Some 0" and none: "hex_digit 0x78 = None" "hex_digit 0x58 = None" "hex_digit 0x2b = None"
    by (simp_all add: hex_digit_def)
  have "trim (concat ws1 @ (prefix @ ds) @ concat ws2) = prefix @ ds"
    using assms zero by (intro trim_hex) auto
  moreover have "\<not> starts_with [0x30, x] ds" if "hex_digit x = None" for x
    using assms(4,5) that by (cases ds; cases "tl ds") (auto simp: starts_with_def)
  moreover have "from_str_radix_16 (2 ^ 32) ds = (if hex_number 0 ds < 2 ^ 32 then Some (hex_number 0 ds) else None)"
  proof -
    have "(case ds of c # cs \<Rightarrow> if c = 0x2b \<and> cs \<noteq> [] then cs else ds | [] \<Rightarrow> []) = ds"
      using assms(4,5) none(3) by (auto split: list.split)
    then show ?thesis using assms(4,5) hex_value_number [of ds 0 "2 ^ 32"] by (simp add: from_str_radix_16_def Let_def)
  qed
  ultimately show ?thesis
    using assms(3,4) none by (auto simp: parse_service_id_hex_def Let_def starts_with_def)
qed

theorem service_id_read_witness:
  "parse_service_id_hex [0x20, 0x30, 0x78, 0x31, 0x46, 0xe2, 0x80, 0x83] = Some 31"
proof -
  have "hex_digit 0x31 = Some 1" "hex_digit 0x46 = Some 15" by (simp_all add: hex_digit_def)
  then show ?thesis
    using service_id_read [of "[[0x20]]" "[[0xe2, 0x80, 0x83]]" "[0x30, 0x78]" "[0x31, 0x46]"]
    by (simp add: white_space_def)
qed

section \<open>What a run leaves in the files\<close>

interpretation persist: state_ops_sim "builder_ops B" "builder_ops B" "(=)" "\<lambda>b. b_persist b = loc"
    "\<lambda>_ _ _. True" for B loc
  by unfold_locales (auto simp: builder_persist)

lemma run_persist:
  "state_transition (builder_ops B) ops b = Inr b' \<Longrightarrow> b_persist b = b_persist b'"
  using persist.transition_final by blast

lemma create_new_other: "create_new p c fs = Inr fs' \<Longrightarrow> q \<noteq> p \<Longrightarrow> files fs' q = files fs q"
  by (auto simp: create_new_def split: if_splits)

lemma serialize_other:
  assumes "b_serialize B SC X b fs = Inr fs'" "b_persist b = Some loc"
    and "p \<noteq> loc @ [HEAD_FILE]" "\<forall>h. p \<noteq> loc @ [hex_encode X h]"
  shows "files fs' p = files fs p"
  using assms
  by (auto simp: b_serialize_def Let_def case_prod_unfold bind_res_Inr_iff create_new_other
      split: option.splits)

lemma witness_other:
  assumes "compute_transition_witness B SC X loc head ops fs = Inr (w, fs')"
    and "p \<noteq> loc @ [HEAD_FILE]" "\<forall>h. p \<noteq> loc @ [hex_encode X h]"
  shows "files fs' p = files fs p"
proof -
  obtain b0 b1 where b0: "from_db_path B SC X loc head fs = Inr b0"
    and b1: "state_transition (builder_ops B) ops (snd (b_get_root B b0)) = Inr b1"
    and fs': "b_serialize B SC X (snd (b_get_root B (snd (take_witness b1)))) fs = Inr fs'"
    using assms(1) by (auto simp: compute_transition_witness_def bind_res_Inr_iff Let_def case_prod_unfold)
  have "b_persist (snd (b_get_root B (snd (take_witness b1)))) = Some loc"
    using opened_fresh [OF b0] run_persist [OF b1] by (simp add: witness_persist)
  then show ?thesis by (rule serialize_other [OF fs' _ assms(2,3)])
qed

lemma files_run_Inr:
  "files_run f w = Inr (r, w') \<longleftrightarrow>
     (\<exists>x fs. f (w_files w) = Inr (x, fs) \<and> r = Some x \<and> w' = w\<lparr>w_files := fs\<rparr>)"
  by (auto simp: files_run_def bind_res_Inr_iff)

text \<open>The part of \<open>main\<close> after the checks of the arguments.\<close>

definition main_body ::
    "hasher \<Rightarrow> stream_codec \<Rightarrow> hex_codec \<Rightarrow> (bytes \<Rightarrow> string + signed_operation_json list) \<Rightarrow>
       client_env \<Rightarrow> node \<times> node \<Rightarrow> client_args \<Rightarrow> path \<Rightarrow> u32 option \<Rightarrow> hash option \<Rightarrow> unit run" where
  "main_body B SC X from_slice E nodes args input service head =
     bind_run (files_run (\<lambda>fs. bind_res (read_ops_from_file from_slice input fs) (\<lambda>ops. Inr (ops, fs))))
       (\<lambda>ops.
     bind_run (files_run (compute_transition_witness B SC X [] head ops)) (\<lambda>witness.
       submit_packages E nodes (arg_output args) (arg_segment args)
         (if arg_connect_rpc args then Extrinsic else Direct) service ops witness))"

lemma client_main_body:
  assumes "arg_input args = Some input" "check_service args = Inr (Some service)"
    and "parse_head X (arg_head args) = Inr head" "\<not> (arg_preimage args \<and> arg_segment args)"
    and "arg_connect_rpc args \<or> arg_output args \<noteq> None"
  shows "client_main B SC X from_slice E nodes args
    = main_body B SC X from_slice E nodes args input service head"
  using assms by (auto simp: client_main_def main_body_def Let_def)

lemma main_body_Inr:
  "main_body B SC X from_slice E nodes args input service head w = Inr (r, w') \<longleftrightarrow>
     (\<exists>ops wit fs. read_ops_from_file from_slice input (w_files w) = Inr ops \<and>
        compute_transition_witness B SC X [] head ops (w_files w) = Inr (wit, fs) \<and>
        submit_packages E nodes (arg_output args) (arg_segment args)
          (if arg_connect_rpc args then Extrinsic else Direct) service ops wit (w\<lparr>w_files := fs\<rparr>) = Inr (r, w'))"
  unfolding main_body_def bind_run_def bind_res_Inr_iff by (fastforce simp: files_run_Inr bind_res_Inr_iff)

lemma main_cases:
  assumes "client_main B SC X from_slice E nodes args w = Inr (r, w')"
  obtains (early) "r = Some ()" "w' = w"
    | (body) input service head where "arg_input args = Some input" "check_service args = Inr (Some service)"
        "parse_head X (arg_head args) = Inr head"
        "main_body B SC X from_slice E nodes args input service head w = Inr (r, w')"
proof (cases "arg_input args")
  case None
  then show ?thesis using assms early by (simp add: client_main_def return_run_def)
next
  case (Some input)
  show ?thesis
  proof (cases "(\<not> arg_connect_rpc args \<and> arg_output args = None) \<or> check_service args = Inr None")
    case True
    then show ?thesis using assms Some early by (auto simp: client_main_def return_run_def split: if_splits)
  next
    case False
    then obtain service where service: "check_service args = Inr (Some service)"
      using assms Some
      by (cases "check_service args") (auto simp: client_main_def panic_run_def split: if_splits option.splits)
    then obtain head where head: "parse_head X (arg_head args) = Inr head"
      using assms Some False
      by (cases "parse_head X (arg_head args)") (auto simp: client_main_def panic_run_def split: if_splits)
    show ?thesis
    proof (cases "arg_preimage args \<and> arg_segment args")
      case True
      then show ?thesis
        using assms Some False service head early by (simp add: client_main_def return_run_def split: if_splits)
    next
      case no_conflict: False
      then have "client_main B SC X from_slice E nodes args
          = main_body B SC X from_slice E nodes args input service head"
        using False by (intro client_main_body [OF Some service head]) auto
      then show ?thesis using assms Some service head body by metis
    qed
  qed
qed

text \<open>
  C24. Without \<open>--connect-rpc\<close> the client exports nothing: whatever the other arguments, a run that
  ends has submitted no package and has changed no file but those of the database, the output file
  among them.
\<close>

theorem unconnected_run_exports_nothing:
  assumes "\<not> arg_connect_rpc args" "client_main B SC X from_slice E nodes args w = Inr (r, w')"
    and "p \<noteq> [HEAD_FILE]" "\<forall>h. p \<noteq> [hex_encode X h]"
  shows "r = Some () \<and> w_submitted w' = w_submitted w \<and> files (w_files w') p = files (w_files w) p"
proof -
  have submit: "submit_packages E nodes out seg d None ops wit = return_run ()" for out seg d ops wit
    by (cases d) (simp_all add: submit_packages_def batch_payload_def)
  show ?thesis
  proof (cases rule: main_cases [OF assms(2)])
    case (2 input service head)
    have "service = None" using 2(2) assms(1) by (simp add: check_service_def)
    then obtain ops wit fs where "compute_transition_witness B SC X [] head ops (w_files w) = Inr (wit, fs)"
      "r = Some ()" "w' = w\<lparr>w_files := fs\<rparr>"
      using 2(4) by (auto simp: main_body_Inr submit return_run_def)
    then show ?thesis using witness_other [of B SC X "[]"] assms(3,4) by fastforce
  qed simp
qed

definition demo_json :: "bytes \<Rightarrow> string + signed_operation_json list" where
  "demo_json _ = Inr [SMint 1 100 (lower_hex (demo_account 1)) (lower_hex (zero_bytes 64))]"

definition demo_args :: "bool \<Rightarrow> client_args" where
  "demo_args rpc =
     \<lparr>arg_input = Some [[1]], arg_output = (if rpc then None else Some [[5]]), arg_preimage = False,
      arg_segment = False, arg_connect_rpc = rpc, arg_service = Some [0x31], arg_head = None\<rparr>"

definition demo_world :: world where
  "demo_world = \<lparr>w_files = demo_files\<lparr>files := [[[1]] \<mapsto> []]\<rparr>, w_submitted = []\<rparr>"

definition demo_ops :: "signed_operation list" where
  "demo_ops = [\<lparr>operation = Mint (demo_account 1) 1 100, signature = zero_bytes 64\<rparr>]"

lemma demo_read: "read_ops_from_file demo_json [[1]] (w_files demo_world) = Inr demo_ops"
  by (simp add: read_ops_from_file_def read_file_def demo_world_def demo_files_def parse_signed_operations_def
      demo_json_def decode_account_def decode_signature_def decode_hex_lower demo_ops_def)

lemma demo_open:
  "from_db_path demo_hash demo_stream demo_hex [] None (w_files demo_world) = Inr (set_new_persist_file [] empty_b_state)"
  by (simp add: from_db_path_def read_head_def demo_world_def demo_files_def HEAD_FILE_def)

lemma demo_takes: "takes_state demo_hex [] (get_root demo_hash demo_minted) (w_files demo_world)"
proof -
  have "length (hex_encode demo_hex (get_root demo_hash demo_minted)) = 64"
    using demo_hex_ok by (simp add: hex_ok_def get_root_def)
  then have "hex_encode demo_hex (get_root demo_hash demo_minted) \<noteq> [1]" by auto
  then show ?thesis by (simp add: takes_state_def demo_world_def demo_files_def HEAD_FILE_def)
qed

lemma demo_ops_run:
  "\<forall>op \<in> set demo_ops. op_slots (\<lambda>a t. is_bytes 32 a \<and> balance_key t a \<in> demo_keys) op"
  "state_transition (merkle_ops demo_hash) demo_ops (shared_state (set_new_persist_file ([] :: path) empty_b_state))
     = Inr demo_minted"
  using demo_room(5) by (simp_all add: demo_ops_def demo_database(2) demo_minted_run)

lemmas demo_step = demo_hash_ok demo_hash_nonzero demo_stream_ok demo_hex_ok demo_open demo_room(2,1)
  demo_ops_run demo_takes demo_room(3,4)

text \<open>A node that has the service and its code, and takes packages on the cores in \<open>open_cores\<close>.\<close>

definition demo_node :: "u16 set \<Rightarrow> node" where
  "demo_node open_cores =
     \<lparr>nd_connect = True, nd_finalized_block = Inr \<lparr>blk_hash = [1], blk_slot = 1\<rparr>,
      nd_best_block = Inr \<lparr>blk_hash = [2], blk_slot = 2\<rparr>, nd_parent = (\<lambda>h. Inr \<lparr>blk_hash = 0 # h, blk_slot = 0\<rparr>),
      nd_state_root = (\<lambda>h. Inr h), nd_beefy_root = (\<lambda>h. Inr h),
      nd_service_data = (\<lambda>h s. Inr (Some \<lparr>svc_code_hash = [3]\<rparr>)), nd_service_preimage = (\<lambda>h s c. Inr (Some [])),
      nd_submit = (\<lambda>core package extrinsics. if core \<in> open_cores then Inr () else Inl ''full'')\<rparr>"

definition demo_env :: client_env where
  "demo_env =
     \<lparr>hash_raw = (\<lambda>b. take 32 (demo_hash b)), enc_payload = (\<lambda>_. []), enc_witness = (\<lambda>_. []),
      enc_package = (\<lambda>_. []), null_authorizer = [], max_refine_gas = 1, max_accumulate_gas = 1,
      val_count = 6, vals_per_core = 3\<rparr>"

theorem unconnected_run_exports_nothing_witness:
  "\<exists>r w'. client_main demo_hash demo_stream demo_hex demo_json demo_env (demo_node {0}, demo_node {0})
       (demo_args False) demo_world = Inr (r, w') \<and>
     w_submitted w' = [] \<and> files (w_files w') [[5]] = None"
proof -
  let ?nodes = "(demo_node {0}, demo_node {0})"
  obtain w fs' where run: "compute_transition_witness demo_hash demo_stream demo_hex [] None demo_ops
      (w_files demo_world) = Inr (w, fs')"
    using database_step [OF demo_step] by blast
  then have ends: "client_main demo_hash demo_stream demo_hex demo_json demo_env ?nodes (demo_args False) demo_world
      = Inr (Some (), demo_world\<lparr>w_files := fs'\<rparr>)"
    by (simp add: client_main_def demo_args_def check_service_def parse_head_def bind_run_def files_run_def
        demo_read submit_packages_def batch_payload_def return_run_def)
  have "length (hex_encode demo_hex h) \<noteq> length [5 :: u8]" for h
    by (simp add: demo_hex_def)
  then have "[[5]] \<noteq> [hex_encode demo_hex h]" for h by force
  then show ?thesis
    using unconnected_run_exports_nothing [OF _ ends, of "[[5]]"] ends
    by (auto simp: demo_args_def HEAD_FILE_def demo_world_def demo_files_def)
qed

section \<open>A refused batch\<close>

lemma refused_submission:
  assumes "\<forall>core package extrinsics. isl (nd_submit nd core package extrinsics)"
    and "0 < val_count E div vals_per_core E"
  shows "\<exists>r. submit_to_node E nd (Some service) p wit n prev w = Inr (r, w) \<and> (\<forall>h. r \<noteq> Some (Inr h))"
proof -
  let ?max = "val_count E div vals_per_core E"
  have none: "find (\<lambda>c. \<not> isl (nd_submit nd c pkg ext)) cs = None" for pkg ext cs
    using assms(1) by (auto simp: find_None_iff)
  have "0 < unat ?max" using assms(2) by (simp add: word_less_nat_alt)
  then have loop: "submit_loop (\<lambda>c. nd_submit nd c pkg ext) ?max DEFAULT_CORE =
      Inr (Inl (projl (nd_submit nd (?max - 1) pkg ext)))" for pkg ext
    using submit_loop_from [of 0 ?max] none by (simp add: DEFAULT_CORE_def)
  show ?thesis
    by (auto simp: submit_to_node_def exit_run_def return_run_def loop Let_def
        split: sum.split option.split prod.split)
qed

lemma refused_package:
  assumes "\<forall>core package extrinsics. isl (nd_submit nd core package extrinsics)"
    and "0 < val_count E div vals_per_core E"
  shows "create_and_submit_package E nd None p wit n service prev w = Inr (None, w)"
proof -
  obtain r where r: "submit_to_node E nd (Some service) p wit n prev w = Inr (r, w)" "\<forall>h. r \<noteq> Some (Inr h)"
    using refused_submission [OF assms] by blast
  show ?thesis
    by (cases r) (use r in \<open>auto simp: create_and_submit_package_def export_payload_def bind_run_def exit_run_def
        split: sum.splits\<close>)
qed



end
