(* ===== verification/Client_Flow.thy ===== *)
theory Client_Flow
  imports Client_Props
begin

text \<open>
  The way of a batch that the client sends in two packages: the first is verified and exports the
  batch with its witness as a segment, the second imports the segment and executes it, and a round
  that accumulates both moves the chain to the client's root.
\<close>

definition batch_segment :: "codec \<Rightarrow> signed_operation list \<Rightarrow> witness \<Rightarrow> bytes" where
  "batch_segment CD ops wit = enc_segment CD \<lparr>seg_operations = ops, seg_witness = wit\<rparr>"

text \<open>The client's encodings of these payloads and of the witness are what the service decodes.\<close>

definition codecs_agree ::
    "client_env \<Rightarrow> codec \<Rightarrow> (bytes \<Rightarrow> acc_operation option) \<Rightarrow> payload set \<Rightarrow> witness \<Rightarrow> bool" where
  "codecs_agree E CD decode ps w \<longleftrightarrow>
     (\<forall>p \<in> ps. dec_payload CD (enc_payload E p) = Some p) \<and>
     dec_witness CD (enc_witness E w) = Some w \<and>
     (\<forall>op. length (op_previous_root op) = 32 \<longrightarrow> length (op_new_root op) = 32 \<longrightarrow>
        (\<forall>h \<in> set (op_exported_segments op). length h = 32) \<longrightarrow> decode (enc_operation CD op) = Some op)"

lemma first_package_refined:
  assumes "codecs_agree E CD decode ps wit" "fst (batch_payload Extrinsic Deferring ops wit) \<in> ps"
    and "extrinsic H 0 = Some (enc_witness E wit)"
    and "vk_try_from C (admin C) = Some admin_key" "list_all (authorised C admin_key) ops"
    and "from_witness (blake2b C) wit = Some st" "export_slice H (batch_segment CD ops wit) = Inr i"
  shows "service_refine C CD H (enc_payload E (fst (batch_payload Extrinsic Deferring ops wit))) =
    Inr (enc_operation CD \<lparr>op_delivery = Extrinsic, op_previous_root = get_root (blake2b C) st,
           op_new_root = get_root (blake2b C) st,
           op_exported_segments = [hash_multiple (blake2b C) [batch_segment CD ops wit]]\<rparr>,
         [batch_segment CD ops wit])"
proof -
  have "refine_verified C CD H (fst (batch_payload Extrinsic Deferring ops wit)) [] =
      Inr (Some (get_root (blake2b C) st, get_root (blake2b C) st, length ops, Extrinsic),
           [hash_multiple (blake2b C) [batch_segment CD ops wit]], [batch_segment CD ops wit])"
    using assms
    by (simp add: refine_verified_Some_iff [OF assms(4)] batch_payload_def deliver_witness_def
        codecs_agree_def export_batch_Some_iff batch_segment_def Let_def)
  then show ?thesis
    using assms(1,2)
    by (simp add: service_refine_def refine_payload_def refine_transition_def codecs_agree_def
        batch_payload_def Let_def)
qed

lemma second_package_refined:
  assumes "codecs_agree E CD decode ps w" "second_payload \<in> ps" and "import_segment H 0 = Some seg"
    and "dec_segment CD seg = Some \<lparr>seg_operations = ops, seg_witness = wit\<rparr>"
    and "from_witness (blake2b C) wit = Some st" "state_transition (merkle_ops (blake2b C)) ops st = Inr st'"
  shows "service_refine C CD H (enc_payload E second_payload) =
    Inr (enc_operation CD \<lparr>op_delivery = Direct, op_previous_root = get_root (blake2b C) st,
           op_new_root = get_root (blake2b C) st', op_exported_segments = []\<rparr>, [])"
proof -
  have "run_batch C ops Direct [] st =
      Inr (Some (get_root (blake2b C) st, get_root (blake2b C) st', length ops, Direct), [], [])"
    using assms(6) by (simp add: run_batch_Inr_iff)
  then show ?thesis
    using assms(1-5)
    by (simp add: service_refine_def refine_payload_def refine_transition_def codecs_agree_def
        refine_deferred_def second_payload_def Let_def)
qed


definition demo_flow_env :: client_env where
  "demo_flow_env = demo_env\<lparr>enc_payload := (\<lambda>p. if p = second_payload then [2] else [1])\<rparr>"

definition demo_flow_codec :: "witness \<Rightarrow> codec" where
  "demo_flow_codec w =
     \<lparr>dec_payload = (\<lambda>b. Some (if b = [2] then second_payload
         else fst (batch_payload Extrinsic Deferring [demo_mint] w))),
      dec_witness = (\<lambda>_. Some w), enc_segment = (\<lambda>_. [7]),
      dec_segment = (\<lambda>_. Some \<lparr>seg_operations = [demo_mint], seg_witness = w\<rparr>),
      enc_operation = demo_enc_acc\<rparr>"

lemma demo_flow_agrees:
  "codecs_agree demo_flow_env (demo_flow_codec w) demo_dec_acc
     {fst (batch_payload Extrinsic Deferring [demo_mint] w), second_payload} w"
  by (auto simp: codecs_agree_def demo_flow_codec_def demo_flow_env_def batch_payload_def second_payload_def
      demo_dec_enc_acc)


end
