(* ===== verification/Chain.thy ===== *)
theory Chain
  imports Refinement_Props
begin

text \<open>
  The history of the chain's root: a step relation of rounds, each of which accumulates any items,
  and what connects the first root to the last. The items are outputs of the service's own
  refinement of payloads that are not deferred, or carry no output at all.
\<close>

section \<open>Rounds\<close>

text \<open>The transitions that a round carries out: all that its items report, or none.\<close>

definition accepted ::
    "'s storage_api \<Rightarrow> root_codec \<Rightarrow> (bytes \<Rightarrow> acc_operation option) \<Rightarrow> accumulate_item list \<Rightarrow> 's \<Rightarrow>
       acc_operation list" where
  "accepted S RC decode items s =
     (if follow (client_root S RC s) (reports decode items) = None then [] else reports decode items)"

inductive rounds ::
    "'s storage_api \<Rightarrow> root_codec \<Rightarrow> (bytes \<Rightarrow> acc_operation option) \<Rightarrow> (accumulate_item \<Rightarrow> bool) \<Rightarrow>
       's \<Rightarrow> acc_operation list \<Rightarrow> 's \<Rightarrow> bool"
  for S RC decode allowed s where
    start: "rounds S RC decode allowed s [] s"
  | round: "rounds S RC decode allowed s ops s1 \<Longrightarrow> list_all allowed items \<Longrightarrow>
      service_accumulate S RC decode items s1 = Inr (out, s2) \<Longrightarrow>
      rounds S RC decode allowed s (ops @ accepted S RC decode items s1) s2"

lemma rounds_follow:
  assumes "rounds S RC decode allowed s ops s'" "storage_laws S" "root_codec_ok RC" "decodes_roots decode"
  shows "follow (client_root S RC s) ops = Some (client_root S RC s')"
  using assms(1)
proof (induction rule: rounds.induct)
  case (round ops s1 items out s2)
  then have "on_accumulate_items S RC decode items s1 = Inr s2"
    by (auto simp: service_accumulate_def bind_res_Inr_iff)
  then have "client_root S RC s2 = (case follow (client_root S RC s1) (reports decode items) of
      Some r \<Rightarrow> r | None \<Rightarrow> client_root S RC s1)"
    using round_moves [OF assms(2-4)] by blast
  then show ?case
    using round.IH by (auto simp: follow_append accepted_def split: option.splits)
qed simp

lemma rounds_reported:
  assumes "rounds S RC decode allowed s ops s'" "op \<in> set ops"
  shows "\<exists>item. allowed item \<and> reported decode item = Some op"
  using assms
proof (induction rule: rounds.induct)
  case (round ops s1 items out s2)
  have "\<exists>item \<in> set items. reported decode item = Some op" if "op \<in> set (reports decode items)"
    using that by (induction items) (auto simp: reports_def map_filter_simps split: option.splits)
  then show ?case using round by (auto simp: accepted_def list_all_iff split: if_splits)
qed simp

section \<open>Refined items\<close>

fun refined_item :: "crypto \<Rightarrow> codec \<Rightarrow> accumulate_item \<Rightarrow> bool" where
  "refined_item C CD (TransferItem t) \<longleftrightarrow> True"
| "refined_item C CD (WorkItem r) \<longleftrightarrow>
     (case wir_result r of
        Inl e \<Rightarrow> True
      | Inr out \<Rightarrow> \<exists>H payload p exports. dec_payload CD payload = Some p \<and> pl_execution p \<noteq> Deferred \<and>
          service_refine C CD H payload = Inr (out, exports))"

text \<open>A change of root that the execution of authorised operations on a loaded state explains.\<close>

definition explained :: "crypto \<Rightarrow> bytes \<Rightarrow> hash \<Rightarrow> hash \<Rightarrow> bool" where
  "explained C admin_key r r' \<longleftrightarrow>
     (\<exists>w st. from_witness (blake2b C) w = Some st \<and> get_root (blake2b C) st = r \<and>
        (r' = r \<or> (\<exists>ops st'. list_all (authorised C admin_key) ops \<and>
           state_transition (merkle_ops (blake2b C)) ops st = Inr st' \<and> r' = get_root (blake2b C) st')))"

text \<open>The decoder of operations inverts the encoder and takes no empty output.\<close>

definition acc_codec_ok :: "codec \<Rightarrow> (bytes \<Rightarrow> acc_operation option) \<Rightarrow> bool" where
  "acc_codec_ok CD decode \<longleftrightarrow> decode [] = None \<and>
     (\<forall>op. length (op_previous_root op) = 32 \<longrightarrow> length (op_new_root op) = 32 \<longrightarrow>
        (\<forall>h \<in> set (op_exported_segments op). length h = 32) \<longrightarrow> decode (enc_operation CD op) = Some op)"

lemma verified_output:
  assumes "vk_try_from C (admin C) = Some admin_key"
    and "refine_verified C CD H p [] = Inr (Some (r, r', n, d), es, xs)"
  shows "explained C admin_key r r' \<and> (blake2b_ok (blake2b C) \<longrightarrow>
    length r = 32 \<and> length r' = 32 \<and> (\<forall>h \<in> set es. length h = 32))"
proof -
  obtain w st where w: "from_witness (blake2b C) w = Some st" "list_all (authorised C admin_key) (pl_operations p)"
    and e: "case pl_execution p of
          Immediate \<Rightarrow> run_batch C (pl_operations p) (pl_delivery p) [] st = Inr (Some (r, r', n, d), es, xs)
        | Deferring \<Rightarrow> export_batch C CD H p w (get_root (blake2b C) st) [] = Inr (Some (r, r', n, d), es, xs)
        | Deferred \<Rightarrow> False"
    using assms(2) by (auto simp: refine_verified_Some_iff [OF assms(1)])
  show ?thesis
  proof (cases "pl_execution p")
    case Immediate
    then obtain st' where "state_transition (merkle_ops (blake2b C)) (pl_operations p) st = Inr st'"
      "r = get_root (blake2b C) st" "r' = get_root (blake2b C) st'" "es = []"
      using e by (auto simp: run_batch_Inr_iff)
    then show ?thesis using w by (auto simp: explained_def get_root_def)
  next
    case Deferring
    then have "r = get_root (blake2b C) st" "r' = r"
      "es = [hash_multiple (blake2b C) [enc_segment CD \<lparr>seg_operations = pl_operations p, seg_witness = w\<rparr>]]"
      using e by (auto simp: export_batch_Some_iff Let_def)
    then show ?thesis using w by (auto simp: explained_def get_root_def)
  qed (use e in simp)
qed

lemma refined_explained:
  assumes "vk_try_from C (admin C) = Some admin_key" "blake2b_ok (blake2b C)" "acc_codec_ok CD decode"
    and "refined_item C CD item" "reported decode item = Some op"
  shows "explained C admin_key (op_previous_root op) (op_new_root op)"
proof -
  obtain rec out where item: "item = WorkItem rec" "wir_result rec = Inr out" "decode out = Some op"
    using assms(5) by (auto simp: reported_def split: accumulate_item.splits sum.splits)
  then obtain H payload p exports where p: "dec_payload CD payload = Some p" "pl_execution p \<noteq> Deferred"
    and out: "service_refine C CD H payload = Inr (out, exports)"
    using assms(4) by auto
  have "out \<noteq> []" using assms(3) item(3) by (auto simp: acc_codec_ok_def)
  have "refine_transition C CD H payload [] = refine_verified C CD H p []"
    using p by (cases "pl_execution p") (simp_all add: refine_transition_def)
  then obtain r r' n d es xs where run: "refine_verified C CD H p [] = Inr (Some (r, r', n, d), es, xs)"
    and enc: "out = enc_operation CD \<lparr>op_delivery = d, op_previous_root = r, op_new_root = r',
        op_exported_segments = es\<rparr>"
    using out \<open>out \<noteq> []\<close>
    by (auto simp: service_refine_def refine_payload_def bind_res_Inr_iff Let_def split: option.splits)
  note verified_output [OF assms(1) run]
  moreover from this have "decode out = Some \<lparr>op_delivery = d, op_previous_root = r, op_new_root = r',
        op_exported_segments = es\<rparr>"
    using assms(2,3) unfolding enc by (simp add: acc_codec_ok_def)
  ultimately show ?thesis using item(3) by simp
qed

section \<open>Property\<close>


definition demo_chain_codec :: codec where
  "demo_chain_codec = (demo_codec (demo_payload Immediate))\<lparr>enc_operation := demo_enc_acc\<rparr>"

lemma demo_chain_codec_ok: "acc_codec_ok demo_chain_codec demo_dec_acc"
  by (simp add: acc_codec_ok_def demo_chain_codec_def demo_dec_enc_acc) (simp add: demo_dec_acc_def)

lemma demo_chain_refined:
  "\<exists>out op. service_refine demo_service_crypto demo_chain_codec demo_host [] = Inr (out, []) \<and>
     demo_dec_acc out = Some op \<and> op_previous_root op = get_root demo_hash empty_state"
proof -
  obtain st' where run: "state_transition (merkle_ops demo_hash) demo_batch empty_state = Inr st'"
    using merkle_total.transition_total [OF demo_keys_ok, of demo_batch]
    by (auto simp: demo_batch_def demo_keys_def)
  have ak: "vk_try_from demo_service_crypto (admin demo_service_crypto) = Some (admin demo_crypto)" by simp
  let ?op = "\<lparr>op_delivery = Direct, op_previous_root = get_root demo_hash empty_state,
      op_new_root = get_root demo_hash st', op_exported_segments = []\<rparr>"
  have "refine_transition demo_service_crypto demo_chain_codec demo_host [] [] =
      Inr (Some (get_root demo_hash empty_state, get_root demo_hash st', length demo_batch, Direct), [], [])"
    using run
    by (simp add: refine_transition_def demo_chain_codec_def demo_codec_def demo_payload_def
        refine_verified_Some_iff [OF ak] deliver_witness_def run_batch_Inr_iff)
  then have "service_refine demo_service_crypto demo_chain_codec demo_host [] = Inr (demo_enc_acc ?op, [])"
    by (simp add: service_refine_def refine_payload_def demo_chain_codec_def Let_def)
  moreover have "demo_dec_acc (demo_enc_acc ?op) = Some ?op"
    by (rule demo_dec_enc_acc) (simp_all add: get_root_def)
  ultimately show ?thesis by (metis acc_operation.select_convs(2))
qed


end
