(* ===== verification/Client_System.thy ===== *)
theory Client_System
  imports Client_Flow Chain
begin

text \<open>
  The client and the chain together: a step relation on the client's files and the service's storage,
  whose step is one batch, computed on the database, refined and accumulated.
\<close>

section \<open>One batch\<close>

text \<open>A batch that the database can take: authorised, on the keys of interest, with room for its result.\<close>

definition sound_batch ::
    "crypto \<Rightarrow> bytes \<Rightarrow> hex_codec \<Rightarrow> path \<Rightarrow> bytes set \<Rightarrow> file_system \<Rightarrow> state \<Rightarrow> signed_operation list \<Rightarrow> bool" where
  "sound_batch C admin_key X loc K fs s ops \<longleftrightarrow>
     list_all (authorised C admin_key) ops \<and>
     (\<forall>op \<in> set ops. op_slots (\<lambda>a t. is_bytes 32 a \<and> balance_key t a \<in> K) op) \<and>
     (\<forall>s'. state_transition (merkle_ops (blake2b C)) ops s = Inr s' \<longrightarrow>
        takes_state X loc (get_root (blake2b C) s') fs \<and> get_root (blake2b C) s' \<noteq> EMPTY_HASH \<and>
        length (token_ids (known_tokens s')) < 2 ^ 32)"

text \<open>The witness shows entries that the state holds: none that the batch itself created.\<close>

definition shows_held :: "hasher \<Rightarrow> state \<Rightarrow> witness \<Rightarrow> bool" where
  "shows_held B s w \<longleftrightarrow> (\<forall>(k, v) \<in> set (key_value_balances w). st_get B k (balances s) = Some v)"

text \<open>The payload arrives as it was sent, and with it the witness when it travels beside it.\<close>

definition arrives ::
    "client_env \<Rightarrow> codec \<Rightarrow> (bytes \<Rightarrow> acc_operation option) \<Rightarrow> refine_host \<Rightarrow> delivery_mode \<Rightarrow>
       signed_operation list \<Rightarrow> witness \<Rightarrow> bool" where
  "arrives E CD decode H d ops w \<longleftrightarrow>
     codecs_agree E CD decode {fst (batch_payload d Immediate ops w)} w \<and>
     (d = Extrinsic \<longrightarrow> extrinsic H 0 = Some (enc_witness E w))"

inductive system_step ::
    "crypto \<Rightarrow> bytes \<Rightarrow> codec \<Rightarrow> client_env \<Rightarrow> stream_codec \<Rightarrow> hex_codec \<Rightarrow> path \<Rightarrow> bytes set \<Rightarrow>
       's storage_api \<Rightarrow> root_codec \<Rightarrow> (bytes \<Rightarrow> acc_operation option) \<Rightarrow>
       file_system \<times> 's \<Rightarrow> file_system \<times> 's \<Rightarrow> bool"
  for C admin_key CD E SC X loc K S RC decode where
    step: "from_db_path (blake2b C) SC X loc None fs = Inr b0 \<Longrightarrow>
      sound_batch C admin_key X loc K fs (shared_state b0) ops \<Longrightarrow>
      compute_transition_witness (blake2b C) SC X loc None ops fs = Inr (w, fs') \<Longrightarrow>
      shows_held (blake2b C) (shared_state b0) w \<Longrightarrow> arrives E CD decode H d ops w \<Longrightarrow>
      service_refine C CD H (enc_payload E (fst (batch_payload d Immediate ops w))) = Inr (out, exports) \<Longrightarrow>
      service_accumulate S RC decode [WorkItem \<lparr>wir_package = pkg, wir_result = Inr out\<rparr>] s = Inr (r, s') \<Longrightarrow>
      system_step C admin_key CD E SC X loc K S RC decode (fs, s) (fs', s')"

inductive_cases system_stepE: "system_step C admin_key CD E SC X loc K S RC decode (fs, s) (fs', s')"

text \<open>The database opens, its state is well formed, and its root is the one the chain holds.\<close>

definition in_step ::
    "hasher \<Rightarrow> stream_codec \<Rightarrow> hex_codec \<Rightarrow> path \<Rightarrow> bytes set \<Rightarrow> 's storage_api \<Rightarrow> root_codec \<Rightarrow>
       file_system \<times> 's \<Rightarrow> bool" where
  "in_step B SC X loc K S RC = (\<lambda>(fs, s). \<exists>b. from_db_path B SC X loc None fs = Inr b \<and>
     merkle_inv B K (shared_state b) \<and> client_root S RC s = get_root B (shared_state b))"

lemma batch_delivered:
  assumes "arrives E CD decode H d ops w"
  defines "p \<equiv> fst (batch_payload d Immediate ops w)"
  shows "dec_payload CD (enc_payload E p) = Some p" "pl_execution p = Immediate" "pl_operations p = ops"
    "deliver_witness CD H (pl_delivery p) (pl_witness p) = Inr (Some w)"
  using assms
  by (cases d; simp add: arrives_def codecs_agree_def batch_payload_def deliver_witness_def)+

text \<open>The client's run decides the witness.\<close>

lemma computed_witness:
  assumes "compute_transition_witness B SC X loc None ops fs = Inr (w, fs')"
    and "from_db_path B SC X loc None fs = Inr b0"
    and "state_transition (builder_ops B) ops (snd (b_get_root B b0)) = Inr b1"
  shows "w = fst (take_witness b1)"
  using assms
  by (auto simp: compute_transition_witness_def Let_def case_prod_unfold bind_res_Inr_iff)

lemma batch_moves_both:
  assumes libs: "blake2b_ok (blake2b C)" "blake2b_nonzero (blake2b C)" "stream_codec_ok SC" "hex_ok X"
      "vk_try_from C (admin C) = Some admin_key" "\<forall>k \<in> K. length k = BALANCE_KEY_SIZE"
    and storage: "storage_total S" "root_codec_ok RC" "decodes_roots decode"
    and opened: "from_db_path (blake2b C) SC X loc None fs = Inr b0" "merkle_inv (blake2b C) K (shared_state b0)"
      "client_root S RC s = get_root (blake2b C) (shared_state b0)"
    and batch: "sound_batch C admin_key X loc K fs (shared_state b0) ops"
    and run: "compute_transition_witness (blake2b C) SC X loc None ops fs = Inr (w, fs')"
    and w: "shows_held (blake2b C) (shared_state b0) w" "arrives E CD decode H d ops w"
    and new: "state_transition (merkle_ops (blake2b C)) ops (shared_state b0) = Inr st'"
  shows "\<exists>b'. from_db_path (blake2b C) SC X loc None fs' = Inr b' \<and> merkle_inv (blake2b C) K (shared_state b') \<and>
      get_root (blake2b C) (shared_state b') = get_root (blake2b C) st'" (is ?database)
    and "\<exists>out s'. service_refine C CD H (enc_payload E (fst (batch_payload d Immediate ops w))) = Inr (out, []) \<and>
      service_accumulate S RC decode [WorkItem \<lparr>wir_package = pkg, wir_result = Inr out\<rparr>] s = Inr (None, s') \<and>
      client_root S RC s' = get_root (blake2b C) st'" (is ?chain)
proof -
  let ?B = "blake2b C"
  note fresh = opened_fresh [OF opened(1)]
  have store: "store_ok ?B (balances (shared_state b0))" using opened(2) by (simp add: merkle_inv_def)
  have ops: "list_all (authorised C admin_key) ops"
    "\<forall>op \<in> set ops. op_slots (\<lambda>a t. is_bytes 32 a \<and> balance_key t a \<in> K) op"
    "takes_state X loc (get_root ?B st') fs" "get_root ?B st' \<noteq> EMPTY_HASH"
    "length (token_ids (known_tokens st')) < 2 ^ 32"
    using batch new by (auto simp: sound_batch_def)
  show ?database
    using database_step [OF libs(1-4) opened(1,2) libs(6) ops(2) new ops(3-5)] run by auto
  obtain b1 where b1: "state_transition (builder_ops ?B) ops (snd (b_get_root ?B b0)) = Inr b1"
    "shared_state b1 = st'" "merkle_inv ?B K st'"
    using opened_run [OF libs(1,2) fresh opened(2) ops(2) new] by blast
  have w1: "w = fst (take_witness b1)" by (rule computed_witness [OF run opened(1) b1(1)])
  have root: "fst (b_get_root ?B (snd (take_witness b1))) = get_root ?B st'"
    using client_start(1) [OF take_witness_fresh, of ?B b1] b1(2,3) by (simp add: b_get_root_root merkle_inv_def)
  have held: "\<forall>(k, v) \<in> set (key_value_balances (fst (take_witness b1))).
      st_get ?B k (balances (shared_state b0)) = Some v"
    using w(1) unfolding shows_held_def w1 by blast
  have "deliver_witness CD H (pl_delivery (fst (batch_payload d Immediate ops w)))
      (pl_witness (fst (batch_payload d Immediate ops w))) = Inr (Some (fst (take_witness b1)))"
    using batch_delivered(4) [OF w(2)] w1 by simp
  then show ?chain
    unfolding root [symmetric]
    by (rule update_accepted [OF libs(1,2) conjunct1 [OF fresh] store b1(1) held libs(5) ops(1)
          batch_delivered(1-3) [OF w(2)] _ storage])
      (use w(2) opened(3) in \<open>auto simp: arrives_def codecs_agree_def Let_def b_get_root_root\<close>)
qed

lemma sound_batch_runs:
  assumes "merkle_inv (blake2b C) K s" "sound_batch C admin_key X loc K fs s ops"
  shows "\<exists>s'. state_transition (merkle_ops (blake2b C)) ops s = Inr s'"
  using assms merkle_total.transition_total unfolding sound_batch_def by blast

lemma system_step_keeps:
  assumes "blake2b_ok (blake2b C)" "blake2b_nonzero (blake2b C)" "stream_codec_ok SC" "hex_ok X"
      "vk_try_from C (admin C) = Some admin_key" "\<forall>k \<in> K. length k = BALANCE_KEY_SIZE"
      "storage_total S" "root_codec_ok RC" "decodes_roots decode"
    and "system_step C admin_key CD E SC X loc K S RC decode x y" "in_step (blake2b C) SC X loc K S RC x"
  shows "in_step (blake2b C) SC X loc K S RC y"
  using assms(10,11)
proof (cases rule: system_step.cases)
  case (step fs b0 ops w fs' H d out exports pkg s r s')
  have inv: "merkle_inv (blake2b C) K (shared_state b0)" "client_root S RC s = get_root (blake2b C) (shared_state b0)"
    using assms(11) step(1,3) by (auto simp: in_step_def)
  obtain st' where new: "state_transition (merkle_ops (blake2b C)) ops (shared_state b0) = Inr st'"
    using sound_batch_runs [OF inv(1) step(4)] by blast
  note moves = batch_moves_both [OF assms(1-9) step(3) inv step(4-7) new]
  have "client_root S RC s' = get_root (blake2b C) st'"
    using moves(2) [of pkg] step(8,9) by auto
  then show ?thesis using moves(1) step(2) by (auto simp: in_step_def)
qed

lemma system_advances:
  assumes "blake2b_ok (blake2b C)" "blake2b_nonzero (blake2b C)" "stream_codec_ok SC" "hex_ok X"
      "vk_try_from C (admin C) = Some admin_key" "\<forall>k \<in> K. length k = BALANCE_KEY_SIZE"
      "storage_total S" "root_codec_ok RC" "decodes_roots decode"
    and "in_step (blake2b C) SC X loc K S RC (fs, s)" "from_db_path (blake2b C) SC X loc None fs = Inr b0"
      "sound_batch C admin_key X loc K fs (shared_state b0) ops"
      "compute_transition_witness (blake2b C) SC X loc None ops fs = Inr (w, fs')"
      "shows_held (blake2b C) (shared_state b0) w" "arrives E CD decode H d ops w"
  shows "\<exists>s' st'. system_step C admin_key CD E SC X loc K S RC decode (fs, s) (fs', s') \<and>
    state_transition (merkle_ops (blake2b C)) ops (shared_state b0) = Inr st' \<and>
    client_root S RC s' = get_root (blake2b C) st'"
proof -
  have inv: "merkle_inv (blake2b C) K (shared_state b0)" "client_root S RC s = get_root (blake2b C) (shared_state b0)"
    using assms(10,11) by (auto simp: in_step_def)
  obtain st' where new: "state_transition (merkle_ops (blake2b C)) ops (shared_state b0) = Inr st'"
    using sound_batch_runs [OF inv(1) assms(12)] by blast
  obtain out s' where "service_refine C CD H (enc_payload E (fst (batch_payload d Immediate ops w))) = Inr (out, [])"
    "service_accumulate S RC decode [WorkItem \<lparr>wir_package = [], wir_result = Inr out\<rparr>] s = Inr (None, s')"
    "client_root S RC s' = get_root (blake2b C) st'"
    using batch_moves_both(2) [OF assms(1-9,11) inv assms(12-15) new] by blast
  then show ?thesis using new system_step.step [OF assms(11-15)] by metis
qed

section \<open>Properties\<close>



section \<open>A first batch\<close>

definition demo_direct_codec :: "witness \<Rightarrow> codec" where
  "demo_direct_codec w = (demo_flow_codec w)
     \<lparr>dec_payload := (\<lambda>_. Some (fst (batch_payload Direct Immediate [demo_mint] w)))\<rparr>"

abbreviation "demo_b0 \<equiv> set_new_persist_file ([] :: path) empty_b_state"

lemma demo_first_batch:
  "\<exists>w fs'. compute_transition_witness demo_hash demo_stream demo_hex [] None [demo_mint] demo_files = Inr (w, fs') \<and>
     sound_batch demo_service_crypto (admin demo_crypto) demo_hex [] demo_keys demo_files (shared_state demo_b0) [demo_mint] \<and>
     shows_held demo_hash (shared_state demo_b0) w \<and>
     arrives demo_env (demo_direct_codec w) demo_dec_acc demo_host Direct [demo_mint] w"
proof -
  have new: "state_transition (merkle_ops demo_hash) [demo_mint] (shared_state demo_b0) = Inr demo_minted"
    by (simp only: demo_database(2) demo_mint_def demo_signed_def demo_minted_run)
  have slots: "\<forall>op \<in> set [demo_mint]. op_slots (\<lambda>a t. is_bytes 32 a \<and> balance_key t a \<in> demo_keys) op"
    using demo_room(5) by (simp add: demo_mint_def demo_signed_def)
  have space: "takes_state demo_hex [] (get_root demo_hash demo_minted) demo_files"
    by (simp add: takes_state_def demo_files_def)
  obtain w fs' where w: "compute_transition_witness demo_hash demo_stream demo_hex [] None [demo_mint] demo_files = Inr (w, fs')"
    using database_step [OF demo_hash_ok demo_hash_nonzero demo_stream_ok demo_hex_ok
        demo_database(1) demo_room(2,1) slots new space demo_room(3,4)] by blast
  obtain b1 where "process_mint (builder_ops demo_hash) (demo_account 1) 1 100 (snd (b_get_root demo_hash demo_b0)) = Inr b1"
    and none: "key_values_witness (b_balances b1) = []"
    using mint_on_empty [of "snd (b_get_root demo_hash demo_b0)" demo_hash "demo_account 1" 1 100]
    by (auto simp: set_new_persist_file_def empty_b_state_def empty_b_state_tree_def)
  then have "w = fst (take_witness b1)"
    by (intro computed_witness [OF w demo_database(1)])
      (simp add: demo_mint_def demo_signed_def state_transition_def transition_step_def)
  then have "shows_held demo_hash (shared_state demo_b0) w"
    using none by (simp add: shows_held_def take_witness_def bs_take_witness_def Let_def case_prod_unfold)
  moreover have "arrives demo_env (demo_direct_codec w) demo_dec_acc demo_host Direct [demo_mint] w"
    by (simp add: arrives_def codecs_agree_def demo_direct_codec_def demo_flow_codec_def demo_dec_enc_acc)
  moreover have "sound_batch demo_service_crypto (admin demo_crypto) demo_hex [] demo_keys demo_files (shared_state demo_b0) [demo_mint]"
    using demo_mint_authorised slots new space demo_room(3,4) by (simp add: sound_batch_def)
  ultimately show ?thesis using w by blast
qed

lemma demo_in_step:
  "in_step demo_hash demo_stream demo_hex [] demo_keys (map_storage (\<lambda>_. True)) demo_root_codec (demo_files, empty_store)"
  using demo_room(2)
  by (simp add: in_step_def demo_database client_root_def api_get_def map_storage_def empty_store_def get_root_def
      empty_state_def empty_state_tree_def st_root_def tree_root_def known_tokens_merkle_value_def
      EMPTY_HASH_def [symmetric])

lemma demo_system:
  "vk_try_from demo_service_crypto (admin demo_service_crypto) = Some (admin demo_crypto)"
  "blake2b demo_service_crypto = demo_hash"
  by simp_all

lemmas demo_setting = demo_hash_ok demo_hash_nonzero demo_stream_ok demo_hex_ok demo_system(1) demo_room(1)
  map_total.storage_total_axioms demo_root_codec_ok demo_acc_roots

lemma demo_first_step:
  "\<exists>w fs' s'. system_step demo_service_crypto (admin demo_crypto) (demo_direct_codec w) demo_env demo_stream
       demo_hex [] demo_keys (map_storage (\<lambda>_. True)) demo_root_codec demo_dec_acc
       (demo_files, empty_store) (fs', s') \<and>
     client_root (map_storage (\<lambda>_. True)) demo_root_codec s' = get_root demo_hash demo_minted"
proof -
  have new: "state_transition (merkle_ops demo_hash) [demo_mint] (shared_state demo_b0) = Inr demo_minted"
    by (simp only: demo_database(2) demo_mint_def demo_signed_def demo_minted_run)
  obtain w fs' where "compute_transition_witness demo_hash demo_stream demo_hex [] None [demo_mint] demo_files = Inr (w, fs')"
    "sound_batch demo_service_crypto (admin demo_crypto) demo_hex [] demo_keys demo_files (shared_state demo_b0) [demo_mint]"
    "shows_held demo_hash (shared_state demo_b0) w"
    "arrives demo_env (demo_direct_codec w) demo_dec_acc demo_host Direct [demo_mint] w"
    using demo_first_batch by blast
  then show ?thesis
    using system_advances [where C = demo_service_crypto, unfolded demo_system(2), OF demo_setting
        demo_in_step demo_database(1)] new by fastforce
qed



end
