(* ===== verification/Sign_Ops.thy ===== *)
theory Sign_Ops
  imports Files Json_Props Transition_Props
begin

text \<open>
  The tool \<open>sign_ops\<close> of the client (\<open>token-ledger-builder-v2\<close>, \<open>src/bin/sign_ops.rs\<close>), which turns
  operations given by seeds into signed operations, and the property that what it writes parses
  and verifies. The printed lines are left out; \<open>hex::encode\<close> and \<open>serde_json\<close> are parameters, and
  so is the path an argument names.
\<close>

definition sign_operation ::
    "crypto \<Rightarrow> (bytes \<Rightarrow> str) \<Rightarrow> unsigned_operation_json \<Rightarrow> signed_operation_json" where
  "sign_operation C hex_encode op =
     (case op of
        UMint token_id amount to_seed \<Rightarrow>
          let kp = admin_keypair C;
              to_kp = generate_keypair C to_seed;
              operation = Mint (public_key to_kp) token_id amount;
              signature = sk_sign C (signing_key kp) (signing_message C operation)
          in SMint token_id amount (hex_encode (public_key to_kp)) (hex_encode signature)
      | UTransfer token_id amount from_seed to_seed \<Rightarrow>
          let from_kp = generate_keypair C from_seed;
              to_kp = generate_keypair C to_seed;
              operation = Transfer (public_key from_kp) (public_key to_kp) token_id amount;
              signature = sk_sign C (signing_key from_kp) (signing_message C operation)
          in STransfer token_id amount (hex_encode (public_key from_kp)) (hex_encode (public_key to_kp))
               (hex_encode signature))"

text \<open>The loop of \<open>main\<close>.\<close>

definition sign_operations ::
    "crypto \<Rightarrow> (bytes \<Rightarrow> str) \<Rightarrow> unsigned_operation_json list \<Rightarrow> signed_operation_json list" where
  "sign_operations C hex_encode unsigned_ops =
     fold (\<lambda>op signed_ops. signed_ops @ [sign_operation C hex_encode op]) unsigned_ops []"

text \<open>\<open>write_signed_operations\<close>: the pretty-printed array and a newline; its caller unwraps.\<close>

definition write_signed_operations ::
    "(signed_operation_json list \<Rightarrow> string + bytes) \<Rightarrow> signed_operation_json list \<Rightarrow> path \<Rightarrow>
       file_system \<Rightarrow> panic + file_system" where
  "write_signed_operations to_string_pretty signed_ops output_path fs =
     bind_res (create_file output_path [] fs) (\<lambda>fs.
       case to_string_pretty signed_ops of
         Inl e \<Rightarrow> Inl UnwrapFailed
       | Inr op_seq_json \<Rightarrow> create_file output_path (op_seq_json @ [0x0a]) fs)"

definition HELP_FLAG :: str where
  "HELP_FLAG = [0x2d, 0x2d, 0x68, 0x65, 0x6c, 0x70]" \<comment> \<open>\<open>"--help"\<close>\<close>

definition sign_main ::
    "crypto \<Rightarrow> (bytes \<Rightarrow> str) \<Rightarrow> (bytes \<Rightarrow> string + unsigned_operation_json list) \<Rightarrow>
       (signed_operation_json list \<Rightarrow> string + bytes) \<Rightarrow> (str \<Rightarrow> path) \<Rightarrow> str list \<Rightarrow>
       file_system \<Rightarrow> panic + file_system" where
  "sign_main C hex_encode from_slice to_string_pretty path_of args fs =
     (if length args \<noteq> 3 \<or> args ! 1 = HELP_FLAG then Inr fs
      else
        bind_res (read_file (path_of (args ! 1)) fs) (\<lambda>input_vec.
          case parse_unsigned_operations from_slice input_vec of
            Inl e \<Rightarrow> Inl UnwrapFailed
          | Inr unsigned_ops \<Rightarrow>
              write_signed_operations to_string_pretty (sign_operations C hex_encode unsigned_ops)
                (path_of (args ! 2)) fs))"

section \<open>What the tool signs\<close>

fun named_operation :: "crypto \<Rightarrow> unsigned_operation_json \<Rightarrow> operation" where
  "named_operation C (UMint t a to) = Mint (public_key (generate_keypair C to)) t a"
| "named_operation C (UTransfer t a from to) =
     Transfer (public_key (generate_keypair C from)) (public_key (generate_keypair C to)) t a"

text \<open>An operation the service would not refuse on its face.\<close>

fun sensible :: "crypto \<Rightarrow> unsigned_operation_json \<Rightarrow> bool" where
  "sensible C (UMint t a to) \<longleftrightarrow> a \<noteq> 0"
| "sensible C (UTransfer t a from to) \<longleftrightarrow>
     a \<noteq> 0 \<and> public_key (generate_keypair C from) \<noteq> public_key (generate_keypair C to)"

lemma keypair_parts [simp]:
  "public_key (keypair_from_seed C s) = verification_key C (sk_from C s)"
  "signing_key (keypair_from_seed C s) = sk_from C s"
  by (simp_all add: keypair_from_seed_def Let_def)

lemma signed_verifies:
  assumes "ed25519_ok C" "codec_hash_ok C" "\<And>m. length (blake2b_256 C m) = 32"
  shows "verify_signature C op (sk_sign C sk (signing_message C op)) (verification_key C sk) = Inr ()"
  using assms by (simp add: verify_signature_def ed25519_ok_def codec_hash_ok_def signing_message_def Let_def)

lemma sign_operations_map: "sign_operations C E ops = map (sign_operation C E) ops"
proof -
  have "fold (\<lambda>op acc. acc @ [sign_operation C E op]) ops acc = acc @ map (sign_operation C E) ops" for acc
    by (induction ops arbitrary: acc) simp_all
  then show ?thesis by (simp add: sign_operations_def)
qed

lemma sign_operation_parses:
  assumes "ed25519_ok C" "\<And>b. E b = lower_hex b"
  shows "\<exists>sig. to_signed_operation (sign_operation C E u)
      = Inr (Inr \<lparr>operation = named_operation C u, signature = sig\<rparr>) \<and>
    sig = sk_sign C (case u of UMint _ _ _ \<Rightarrow> signing_key (admin_keypair C)
                     | UTransfer _ _ from _ \<Rightarrow> signing_key (generate_keypair C from))
            (signing_message C (named_operation C u))"
proof -
  have key: "decode_account (E (verification_key C sk)) = Inr (Inr (verification_key C sk))" for sk
    using assms by (simp add: decode_account_def decode_hex_lower ed25519_ok_def)
  have sig: "decode_signature (E (sk_sign C sk m)) = Inr (Inr (sk_sign C sk m))" for sk m
    using assms by (simp add: decode_signature_def decode_hex_lower ed25519_ok_def)
  show ?thesis
    by (cases u) (simp_all add: sign_operation_def generate_keypair_def key sig Let_def)
qed

lemma sign_operation_authorised:
  assumes C: "ed25519_ok C" "codec_hash_ok C" "\<And>m. length (blake2b_256 C m) = 32"
    and E: "\<And>b. E b = lower_hex b" and u: "sensible C u"
  shows "\<exists>op. to_signed_operation (sign_operation C E u) = Inr (Inr op) \<and>
    operation op = named_operation C u \<and> authorised C (admin C) op"
proof -
  obtain op where "to_signed_operation (sign_operation C E u) = Inr (Inr op)"
    "operation op = named_operation C u"
    "signature op = sk_sign C (case u of UMint _ _ _ \<Rightarrow> signing_key (admin_keypair C)
                     | UTransfer _ _ from _ \<Rightarrow> signing_key (generate_keypair C from))
            (signing_message C (named_operation C u))"
    using sign_operation_parses [OF C(1) E] by fastforce
  moreover have "authorised C (admin C) op"
    using calculation(2,3) u signed_verifies [OF C] C(1)
    by (cases u) (simp_all add: authorised_def admin_def admin_keypair_def generate_keypair_def ed25519_ok_def)
  ultimately show ?thesis by blast
qed

lemma sign_operations_collect:
  assumes "ed25519_ok C" "codec_hash_ok C" "\<And>m. length (blake2b_256 C m) = 32"
    and "\<And>b. E b = lower_hex b" and "list_all (sensible C) us"
  shows "\<exists>ops. collect_signed (map (sign_operation C E) us) = Inr (Inr ops) \<and>
    map operation ops = map (named_operation C) us \<and> list_all (authorised C (admin C)) ops"
  using assms(5)
proof (induction us)
  case (Cons u us)
  then obtain ops where "collect_signed (map (sign_operation C E) us) = Inr (Inr ops)"
    "map operation ops = map (named_operation C) us" "list_all (authorised C (admin C)) ops"
    by auto
  moreover obtain op where "to_signed_operation (sign_operation C E u) = Inr (Inr op)"
    "operation op = named_operation C u" "authorised C (admin C) op"
    using sign_operation_authorised [OF assms(1-4)] Cons.prems by fastforce
  ultimately show ?case by (intro exI [of _ "op # ops"]) simp
qed simp

section \<open>Property\<close>

text \<open>
  C27. What the signing tool writes, the service accepts: run on a file of operations given by
  seeds, the tool writes a file that parses to the named operations in order, and the batch
  verifies, if no amount is zero and no transfer is to its sender.
\<close>

theorem signed_batch_verifies:
  assumes "ed25519_ok C" "codec_hash_ok C" "\<forall>m. length (blake2b_256 C m) = 32"
    and "\<forall>b. hex_encode b = lower_hex b"
    and "files fs (path_of input) = Some json" "from_slice_u json = Inr us"
    and "list_all (sensible C) us"
    and "to_string (sign_operations C hex_encode us) = Inr text"
    and "from_slice (text @ [0x0a]) = Inr (sign_operations C hex_encode us)"
    and "input \<noteq> HELP_FLAG" "creatable fs (path_of output)"
  shows "\<exists>fs' file ops.
    sign_main C hex_encode from_slice_u to_string path_of [prog, input, output] fs = Inr fs' \<and>
    files fs' (path_of output) = Some file \<and>
    parse_signed_operations from_slice file = Inr (Inr ops) \<and>
    map operation ops = map (named_operation C) us \<and>
    verify_operations C ops = Inr True"
proof -
  obtain ops where ops: "collect_signed (map (sign_operation C hex_encode) us) = Inr (Inr ops)"
    "map operation ops = map (named_operation C) us" "list_all (authorised C (admin C)) ops"
    using sign_operations_collect [OF assms(1,2) _ _ assms(7)] assms(3,4) by blast
  have "vk_try_from C (admin C) = Some (admin C)"
    using assms(1) by (simp add: admin_def admin_keypair_def ed25519_ok_def)
  then have "verify_operations C ops = Inr True" using ops(3) by (simp add: verify_operations_all)
  moreover have "sign_main C hex_encode from_slice_u to_string path_of [prog, input, output] fs =
      Inr (fs\<lparr>files := (files fs)(path_of output \<mapsto> text @ [0x0a])\<rparr>)"
    using assms(5,6,8,10,11)
    by (simp add: sign_main_def read_file_def parse_unsigned_operations_def write_signed_operations_def
        create_file_def)
  ultimately show ?thesis
    using ops assms(9) by (simp add: parse_signed_operations_def sign_operations_map)
qed

theorem signed_batch_verifies_witness:
  "\<exists>fs' file ops. sign_main demo_crypto lower_hex (\<lambda>_. Inr [UMint 1 100 1, UTransfer 1 30 1 2]) (\<lambda>_. Inr [])
       (\<lambda>s. [s]) [[], [1], [2]] \<lparr>files = [[[1]] \<mapsto> []], creatable = (\<lambda>_. True)\<rparr> = Inr fs' \<and>
     files fs' [[2]] = Some file \<and>
     parse_signed_operations
       (\<lambda>_. Inr (sign_operations demo_crypto lower_hex [UMint 1 100 1, UTransfer 1 30 1 2])) file
       = Inr (Inr ops) \<and> verify_operations demo_crypto ops = Inr True"
proof -
  let ?us = "[UMint 1 100 1, UTransfer 1 30 1 2]"
  have sane: "list_all (sensible demo_crypto) ?us"
    by (simp add: generate_keypair_def demo_crypto_def to_le_bytes_def copy_at_def upt_rec zero_bytes_def)
  have len: "\<forall>m. length (blake2b_256 demo_crypto m) = 32" by (auto simp: demo_crypto_def)
  show ?thesis
    using signed_batch_verifies [OF demo_crypto_ok len _ _ _ sane, of lower_hex
        "\<lparr>files = [[[1]] \<mapsto> []], creatable = (\<lambda>_. True)\<rparr>" "\<lambda>s. [s]" "[1]" "[]" "\<lambda>_. Inr ?us" "\<lambda>_. Inr []" "[]"
        "\<lambda>_. Inr (sign_operations demo_crypto lower_hex ?us)" "[2]" "[]"]
    by (fastforce simp: HELP_FLAG_def)
qed

end
