(* ===== verification/V1_Service.thy ===== *)
theory V1_Service
  imports Json Transition_Props Host Partial_State
begin

text \<open>
  The first service (\<open>token-ledger-service-v1\<close>: \<open>lib.rs\<close>, \<open>refinement.rs\<close>, \<open>accumulation.rs\<close>),
  which keeps balances in the service's storage, and the minimal service. Refinement parses JSON,
  drops what makes no sense, nets the transfers and encodes the rest; accumulation applies the
  list to storage. The arms for \<open>Operation::Solicit\<close> have no constructor to match
  (\<open>token-ledger-common\<close> comments the variant out) and are left out. The codec is a parameter.
\<close>

section \<open>Refinement\<close>

record v1_codec =
  enc_validated :: "operation list \<Rightarrow> bytes"
  dec_validated :: "bytes \<Rightarrow> operation list option"
  enc_u64 :: "u64 \<Rightarrow> bytes"
  dec_u64 :: "bytes \<Rightarrow> u64 option"
  enc_tokens :: "token_id list \<Rightarrow> bytes"
  dec_tokens :: "bytes \<Rightarrow> token_id list option"

text \<open>The body of the first loop; a signature that does not verify is only logged.\<close>

definition v1_refine_step ::
    "crypto \<Rightarrow> signed_operation \<Rightarrow> operation list \<times> staged_transfers \<Rightarrow>
       panic + (operation list \<times> staged_transfers)" where
  "v1_refine_step C signed_op = (\<lambda>(validated, staged).
     (case operation signed_op of
        Mint to token_id amount \<Rightarrow>
          (case vk_try_from C (admin C) of
             None \<Rightarrow> Inl AdminKey
           | Some admin_key \<Rightarrow>
               if amount = 0 then Inr (validated, staged)
               else Inr (validated @ [operation signed_op], staged))
      | Transfer from to token_id amount \<Rightarrow>
          (case vk_try_from C from of
             None \<Rightarrow> Inr (validated, staged)
           | Some signer_key \<Rightarrow>
               if amount = 0 then Inr (validated, staged)
               else if from = to then Inr (validated, staged)
               else Inr (validated, stage_transfer from to token_id amount staged))))"

text \<open>The body of the second loop.\<close>

definition v1_net_transfer :: "(token_id \<times> counterparts) \<times> i64 \<Rightarrow> operation list \<Rightarrow> operation list" where
  "v1_net_transfer entry validated =
     (let ((token_id, (from, to)), net_amount) = entry
      in if sint net_amount > 0 then validated @ [Transfer from to token_id net_amount]
         else if sint net_amount < 0 then validated @ [Transfer to from token_id (- net_amount)]
         else validated)"

definition v1_validate :: "crypto \<Rightarrow> signed_operation list \<Rightarrow> panic + operation list" where
  "v1_validate C operations =
     bind_res (fold_res (v1_refine_step C) operations ([], []))
       (\<lambda>(validated, staged_transfers). Inr (fold v1_net_transfer staged_transfers validated))"

definition v1_refine ::
    "crypto \<Rightarrow> v1_codec \<Rightarrow> (bytes \<Rightarrow> string + signed_operation_json list) \<Rightarrow> bytes \<Rightarrow> panic + bytes" where
  "v1_refine C VC from_slice payload =
     bind_res (parse_signed_operations from_slice payload) (\<lambda>parsed.
       case parsed of
         Inl e \<Rightarrow> Inr []
       | Inr operations \<Rightarrow>
           bind_res (v1_validate C operations) (\<lambda>validated. Inr (enc_validated VC validated)))"

section \<open>Accumulation\<close>

definition KNOWN_TOKENS :: bytes where
  "KNOWN_TOKENS =
     [0x6b, 0x6e, 0x6f, 0x77, 0x6e, 0x5f, 0x74, 0x6f, 0x6b, 0x65, 0x6e, 0x5f, 0x69, 0x64, 0x73]"
    \<comment> \<open>\<open>"known_token_ids"\<close>\<close>

definition v1_tokens :: "'s storage_api \<Rightarrow> v1_codec \<Rightarrow> 's \<Rightarrow> token_id list" where
  "v1_tokens H VC s = (case api_get H (dec_tokens VC) KNOWN_TOKENS s of Some ts \<Rightarrow> ts | None \<Rightarrow> [])"

text \<open>\<open>get_storage(&key).and_then(|b| u64::decode(..).ok())\<close>.\<close>

definition v1_balance :: "'s storage_api \<Rightarrow> v1_codec \<Rightarrow> bytes \<Rightarrow> 's \<Rightarrow> u64 option" where
  "v1_balance H VC key s = Option.bind (get_storage H key s) (dec_u64 VC)"

definition v1_process_mint ::
    "'s storage_api \<Rightarrow> v1_codec \<Rightarrow> account_id \<Rightarrow> token_id \<Rightarrow> u64 \<Rightarrow> 's \<Rightarrow> 's" where
  "v1_process_mint H VC to token_id amount s =
     (let known_tokens = v1_tokens H VC s
      in if List.member known_tokens token_id then s
         else
           let known_tokens = known_tokens @ [token_id];
               s = set_ignoring H KNOWN_TOKENS (enc_tokens VC known_tokens) s;
               to_key = balance_key token_id to;
               current_bal = (case v1_balance H VC to_key s of Some b \<Rightarrow> b | None \<Rightarrow> 0);
               new_bal = saturating_add current_bal amount;
               s = set_ignoring H to_key (enc_u64 VC new_bal) s
           in checkpoint H s)"

definition v1_process_transfer ::
    "'s storage_api \<Rightarrow> v1_codec \<Rightarrow> account_id \<Rightarrow> account_id \<Rightarrow> token_id \<Rightarrow> u64 \<Rightarrow> 's \<Rightarrow> 's" where
  "v1_process_transfer H VC from to token_id amount s =
     (let known_tokens = v1_tokens H VC s
      in if \<not> List.member known_tokens token_id then s
         else
           let from_key = balance_key token_id from;
               to_key = balance_key token_id to;
               from_bal = (case v1_balance H VC from_key s of Some b \<Rightarrow> b | None \<Rightarrow> 0)
           in if from_bal < amount then s
              else
                let to_bal = (case v1_balance H VC to_key s of Some b \<Rightarrow> b | None \<Rightarrow> 0);
                    s = set_ignoring H from_key (enc_u64 VC (from_bal - amount)) s;
                    s = set_ignoring H to_key (enc_u64 VC (saturating_add to_bal amount)) s
                in checkpoint H s)"

definition v1_apply :: "'s storage_api \<Rightarrow> v1_codec \<Rightarrow> operation \<Rightarrow> 's \<Rightarrow> 's" where
  "v1_apply H VC op s =
     (case op of
        Mint to token_id amount \<Rightarrow> v1_process_mint H VC to token_id amount s
      | Transfer from to token_id amount \<Rightarrow> v1_process_transfer H VC from to token_id amount s)"

definition v1_on_work_item :: "'s storage_api \<Rightarrow> v1_codec \<Rightarrow> work_item_record \<Rightarrow> 's \<Rightarrow> 's" where
  "v1_on_work_item H VC record s =
     (case wir_result record of
        Inl e \<Rightarrow> s
      | Inr output \<Rightarrow>
          (case dec_validated VC output of
             None \<Rightarrow> s
           | Some operations \<Rightarrow> fold (v1_apply H VC) operations s))"

text \<open>\<open>on_transfer\<close> only logs.\<close>

definition v1_on_transfer :: "transfer_record \<Rightarrow> 's \<Rightarrow> 's" where
  "v1_on_transfer item s = s"

definition v1_accumulate ::
    "'s storage_api \<Rightarrow> v1_codec \<Rightarrow> accumulate_item list \<Rightarrow> 's \<Rightarrow> hash option \<times> 's" where
  "v1_accumulate H VC items s =
     (None, fold (\<lambda>item s. case item of
               WorkItem r \<Rightarrow> v1_on_work_item H VC r s
             | TransferItem t \<Rightarrow> v1_on_transfer t s) items s)"

section \<open>The minimal service\<close>

definition minimal_refine :: "bytes \<Rightarrow> bytes" where
  "minimal_refine payload = [0x48, 0x65, 0x6c, 0x6c, 0x6f, 0x20] @ payload" \<comment> \<open>\<open>b"Hello "\<close>\<close>

text \<open>The keys are \<open>b"last"\<close> and \<open>b"lasttx"\<close>; \<open>format\<close> stands for the \<open>format!\<close> of the message.\<close>

definition minimal_accumulate_item ::
    "'s storage_api \<Rightarrow> (transfer_record \<Rightarrow> bytes) \<Rightarrow> accumulate_item \<Rightarrow> 's \<Rightarrow> panic + 's" where
  "minimal_accumulate_item H format item s =
     (case item of
        WorkItem w \<Rightarrow>
          (case wir_result w of
             Inl e \<Rightarrow> Inr s
           | Inr out \<Rightarrow>
               (case set_storage H [0x6c, 0x61, 0x73, 0x74] out s of
                  Inl e \<Rightarrow> Inl UnwrapFailed | Inr s \<Rightarrow> Inr s))
      | TransferItem t \<Rightarrow>
          (case set_storage H [0x6c, 0x61, 0x73, 0x74, 0x74, 0x78] (format t) s of
             Inl e \<Rightarrow> Inl UnwrapFailed | Inr s \<Rightarrow> Inr s))"

definition minimal_accumulate ::
    "'s storage_api \<Rightarrow> (transfer_record \<Rightarrow> bytes) \<Rightarrow> accumulate_item list \<Rightarrow> 's \<Rightarrow> panic + (hash option \<times> 's)" where
  "minimal_accumulate H format items s =
     bind_res (fold_res (minimal_accumulate_item H format) items s) (\<lambda>s. Inr (None, s))"

section \<open>Storage as an implementation of StateOps\<close>

text \<open>
  The reads and writes of the first service, as the methods the second service's transition calls.
  The two services' \<open>process_mint\<close> and \<open>process_transfer\<close> are the same on it, up to the checkpoint.
\<close>

definition v1_ops :: "'s storage_api \<Rightarrow> v1_codec \<Rightarrow> 's state_ops" where
  "v1_ops H VC =
     \<lparr>so_known_tokens_contains = (\<lambda>t s. List.member (v1_tokens H VC s) t),
      so_known_tokens_push = (\<lambda>t s. set_ignoring H KNOWN_TOKENS (enc_tokens VC (v1_tokens H VC s @ [t])) s),
      so_get_balance = (\<lambda>a t s. (v1_balance H VC (balance_key t a) s, s)),
      so_set_balance = (\<lambda>a t v s. Inr (set_ignoring H (balance_key t a) (enc_u64 VC v) s)),
      so_root = (\<lambda>s. ([], s))\<rparr>"

lemma KNOWN_TOKENS_not_balance [simp]: "balance_key t a \<noteq> KNOWN_TOKENS" "KNOWN_TOKENS \<noteq> balance_key t a"
proof -
  have "hd (balance_key t a) = 0x62"
    by (simp add: balance_key_def PREFIX_BALANCE_def copy_at_def Let_def)
  moreover have "hd KNOWN_TOKENS = 0x6b" by (simp add: KNOWN_TOKENS_def)
  ultimately show "balance_key t a \<noteq> KNOWN_TOKENS" "KNOWN_TOKENS \<noteq> balance_key t a" by auto
qed

lemma v1_mint_ops:
  "v1_process_mint H VC to t a s =
     (if List.member (v1_tokens H VC s) t then s
      else checkpoint H (projr (process_mint (v1_ops H VC) to t a s)))"
  by (simp add: v1_process_mint_def process_mint_def v1_ops_def Let_def)

lemma v1_mint_ops_total: "process_mint (v1_ops H VC) to t a s = Inr (projr (process_mint (v1_ops H VC) to t a s))"
  by (simp add: process_mint_def v1_ops_def Let_def)

lemma v1_transfer_ops_total:
  "process_transfer (v1_ops H VC) from to t a s = Inr (projr (process_transfer (v1_ops H VC) from to t a s))"
  by (simp add: process_transfer_def v1_ops_def Let_def)

lemma v1_transfer_ops:
  "v1_process_transfer H VC from to t a s \<in>
     {projr (process_transfer (v1_ops H VC) from to t a s),
      checkpoint H (projr (process_transfer (v1_ops H VC) from to t a s))}"
  by (auto simp: v1_process_transfer_def process_transfer_def v1_ops_def Let_def)

text \<open>Two storages with the same content.\<close>

definition same_content :: "'s storage_api \<Rightarrow> 's \<Rightarrow> 's \<Rightarrow> bool" where
  "same_content H s s' \<longleftrightarrow> (\<forall>k. get_storage H k s = get_storage H k s')"

locale v1_storage = storage_total +
  fixes VC :: v1_codec
  assumes tokens_codec: "dec_tokens VC (enc_tokens VC ts) = Some ts"
    and u64_codec: "dec_u64 VC (enc_u64 VC v) = Some v"
begin

lemma tokens_after_token: "v1_tokens H VC (set_ignoring H KNOWN_TOKENS (enc_tokens VC ts) s) = ts"
  by (simp add: v1_tokens_def api_get_ignoring tokens_codec)

lemma tokens_after_balance: "v1_tokens H VC (set_ignoring H (balance_key t a) v s) = v1_tokens H VC s"
  by (simp add: v1_tokens_def api_get_other)

lemma balance_after_token: "v1_balance H VC (balance_key t a) (set_ignoring H KNOWN_TOKENS v s)
    = v1_balance H VC (balance_key t a) s"
  by (simp add: v1_balance_def get_ignoring)

lemma balance_after_balance:
  "v1_balance H VC k (set_ignoring H k' (enc_u64 VC v) s) = (if k = k' then Some v else v1_balance H VC k s)"
  by (simp add: v1_balance_def get_ignoring u64_codec)

lemma tokens_content: "same_content H s s' \<Longrightarrow> v1_tokens H VC s = v1_tokens H VC s'"
  by (simp add: same_content_def v1_tokens_def api_get_def)

lemma balance_content: "same_content H s s' \<Longrightarrow> v1_balance H VC k s = v1_balance H VC k s'"
  by (simp add: same_content_def v1_balance_def)

lemma content_set: "same_content H s s' \<Longrightarrow> same_content H (set_ignoring H k v s) (set_ignoring H k v s')"
  by (simp add: same_content_def get_ignoring)

lemma content_checkpoint: "same_content H (checkpoint H s) s" "same_content H s (checkpoint H s)"
  by (simp_all add: same_content_def get_checkpoint)

lemma content_trans: "same_content H s s' \<Longrightarrow> same_content H s' s'' \<Longrightarrow> same_content H s s''"
  by (simp add: same_content_def)

end

sublocale v1_storage \<subseteq> ledger: state_ops_total "v1_ops H VC" "\<lambda>_. True" "\<lambda>a _. is_bytes 32 a"
    "\<lambda>s. set (v1_tokens H VC s)" "\<lambda>s a t. v1_balance H VC (balance_key t a) s"
  by unfold_locales
    (auto simp: v1_ops_def tokens_after_token tokens_after_balance balance_after_token
      balance_after_balance is_bytes_def)

sublocale v1_storage \<subseteq> content: state_ops_sim "v1_ops H VC" "v1_ops H VC" "same_content H" "\<lambda>_. True" "\<lambda>_ _ _. True"
  by unfold_locales
    (auto simp: v1_ops_def content_set tokens_content balance_content dest: tokens_content)

end
