(* ===== verification/V1_Props.thy ===== *)
theory V1_Props
  imports V1_Service Json_Props
begin

text \<open>
  The properties of the first service: what refinement keeps of a batch, that refinement followed
  by accumulation is the second service's transition on the operations kept, the supply of a
  token over a round, and the loss of funds when the host refuses a write.
\<close>

section \<open>What refinement keeps\<close>

definition plausible :: "crypto \<Rightarrow> signed_operation \<Rightarrow> bool" where
  "plausible C op =
     (case operation op of
        Mint to t a \<Rightarrow> a \<noteq> 0
      | Transfer from to t a \<Rightarrow> vk_try_from C from \<noteq> None \<and> a \<noteq> 0 \<and> from \<noteq> to)"

fun is_mint :: "signed_operation \<Rightarrow> bool" where
  "is_mint op = (case operation op of Mint _ _ _ \<Rightarrow> True | Transfer _ _ _ _ \<Rightarrow> False)"

definition net_transfers :: "staged_transfers \<Rightarrow> operation list" where
  "net_transfers staged = concat (map (\<lambda>e. v1_net_transfer e []) staged)"

lemma v1_net_transfer_append: "v1_net_transfer e validated = validated @ v1_net_transfer e []"
  by (auto simp: v1_net_transfer_def split: prod.split)

lemma fold_net_transfers: "fold v1_net_transfer staged validated = validated @ net_transfers staged"
proof (induction staged arbitrary: validated)
  case (Cons e staged)
  then show ?case using v1_net_transfer_append [of e validated] by (simp add: net_transfers_def)
qed (simp add: net_transfers_def)

lemma v1_refine_loop:
  assumes "vk_try_from C (admin C) = Some ak"
  shows "fold_res (v1_refine_step C) ops (validated, staged) =
    (let good = filter (plausible C) ops
     in Inr (validated @ map operation (filter is_mint good), stage_ops good staged))"
proof (induction ops arbitrary: validated staged)
  case (Cons op ops)
  show ?case
  proof (cases "operation op")
    case (Mint to t a)
    then show ?thesis using Cons assms by (simp add: v1_refine_step_def plausible_def Let_def)
  next
    case (Transfer "from" to t a)
    then show ?thesis
      using Cons by (cases "vk_try_from C from") (simp_all add: v1_refine_step_def plausible_def Let_def)
  qed
qed simp

lemma v1_validate_eq:
  assumes "vk_try_from C (admin C) = Some ak"
  shows "v1_validate C ops =
    Inr (map operation (filter is_mint (filter (plausible C) ops)) @
         net_transfers (stage_ops (filter (plausible C) ops) []))"
  by (simp add: v1_validate_def v1_refine_loop [OF assms] Let_def fold_net_transfers)

section \<open>Accumulation as a transition\<close>

context v1_storage begin

lemma content_refl [simp]: "same_content H s s"
  by (simp add: same_content_def)

lemma mint_content:
  assumes "same_content H s s'"
  shows "\<exists>s2. process_mint (v1_ops H VC) to t a s' = Inr s2 \<and>
    same_content H (v1_process_mint H VC to t a s) s2"
proof -
  obtain s1 where s1: "process_mint (v1_ops H VC) to t a s = Inr s1" using v1_mint_ops_total by metis
  then obtain s2 where s2: "process_mint (v1_ops H VC) to t a s' = Inr s2" "same_content H s1 s2"
    using content.mint_follows [of to t a] assms unfolding content.follows_def by blast
  have "v1_process_mint H VC to t a s \<in> {s1, checkpoint H s1}"
    using s1 by (auto simp: v1_mint_ops process_mint_def v1_ops_def)
  then show ?thesis using s2 content_trans [OF content_checkpoint(1)] by auto
qed

lemma transfer_content:
  assumes "same_content H s s'"
  shows "\<exists>s2. process_transfer (v1_ops H VC) from to t a s' = Inr s2 \<and>
    same_content H (v1_process_transfer H VC from to t a s) s2"
proof -
  obtain s1 where s1: "process_transfer (v1_ops H VC) from to t a s = Inr s1" using v1_transfer_ops_total by metis
  then obtain s2 where s2: "process_transfer (v1_ops H VC) from to t a s' = Inr s2" "same_content H s1 s2"
    using content.transfer_follows [of "from" to t a] assms unfolding content.follows_def by blast
  have "v1_process_transfer H VC from to t a s \<in> {s1, checkpoint H s1}"
    using v1_transfer_ops [of H VC "from" to t a s] s1 by simp
  then show ?thesis using s2 content_trans [OF content_checkpoint(1)] by auto
qed

lemma mints_content:
  "same_content H s s' \<Longrightarrow>
     \<exists>s2. fold_res (transition_step (v1_ops H VC)) ops (s', staged) = Inr (s2, stage_ops ops staged) \<and>
       same_content H (fold (v1_apply H VC) (map operation (filter is_mint ops)) s) s2"
proof (induction ops arbitrary: s s' staged)
  case (Cons op ops)
  show ?case
  proof (cases "operation op")
    case (Mint to t a)
    obtain s2 where "process_mint (v1_ops H VC) to t a s' = Inr s2"
      "same_content H (v1_process_mint H VC to t a s) s2"
      using mint_content [OF Cons.prems] by blast
    then show ?thesis
      using Cons.IH [of "v1_process_mint H VC to t a s" s2 staged] Mint
      by (simp add: v1_apply_def transition_step_def)
  next
    case (Transfer "from" to t a)
    then show ?thesis using Cons by (simp add: transition_step_def)
  qed
qed simp

lemma settle_content:
  "same_content H s s' \<Longrightarrow>
     \<exists>s2. fold_res (settle_transfer (v1_ops H VC)) staged s' = Inr s2 \<and>
       same_content H (fold (v1_apply H VC) (net_transfers staged) s) s2"
proof (induction staged arbitrary: s s')
  case (Cons e staged)
  obtain t a b n where e: "e = ((t, (a, b)), n)" by (metis surj_pair)
  have step: "\<exists>s2. settle_transfer (v1_ops H VC) e s' = Inr s2 \<and>
      same_content H (fold (v1_apply H VC) (v1_net_transfer e []) s) s2"
    using transfer_content [OF Cons.prems] Cons.prems
    by (simp add: settle_transfer_def v1_net_transfer_def e v1_apply_def)
  then obtain s2 where "settle_transfer (v1_ops H VC) e s' = Inr s2"
    "same_content H (fold (v1_apply H VC) (v1_net_transfer e []) s) s2" by blast
  then show ?case using Cons.IH by (simp add: net_transfers_def)
qed (simp add: net_transfers_def)

lemma round_content:
  "\<exists>s2. state_transition (v1_ops H VC) ops s = Inr s2 \<and>
     same_content H (fold (v1_apply H VC)
       (map operation (filter is_mint ops) @ net_transfers (stage_ops ops [])) s) s2"
proof -
  obtain s1 where s1: "fold_res (transition_step (v1_ops H VC)) ops (s, []) = Inr (s1, stage_ops ops [])"
    "same_content H (fold (v1_apply H VC) (map operation (filter is_mint ops)) s) s1"
    using mints_content [OF content_refl] by blast
  show ?thesis using settle_content [OF s1(2)] s1(1) by (simp add: state_transition_def)
qed

lemma round_supply:
  assumes "\<forall>op \<in> set ops. op_slots (\<lambda>a _. is_bytes 32 a) op"
    and "solvent (\<lambda>a _. is_bytes 32 a) (set (v1_tokens H VC s)) (\<lambda>a t. v1_balance H VC (balance_key t a) s)"
    and "same_content H s' s2" "state_transition (v1_ops H VC) ops s = Inr s2"
  shows "set (v1_tokens H VC s') = set (v1_tokens H VC s) \<union> mint_tokens ops"
    "token_supply (\<lambda>a _. is_bytes 32 a) (\<lambda>a t. v1_balance H VC (balance_key t a) s') u =
      (if u \<in> set (v1_tokens H VC s)
       then token_supply (\<lambda>a _. is_bytes 32 a) (\<lambda>a t. v1_balance H VC (balance_key t a) s) u
       else minted u ops)"
  using ledger.transition_supply [OF assms(4) _ assms(2,1)] tokens_content [OF assms(3)]
    balance_content [OF assms(3)]
  by simp_all

end

section \<open>A concrete storage and codec\<close>

text \<open>One batch, encoded as any bytes; balances as eight bytes; tokens as four bytes each.\<close>

fun dec_token_list :: "nat \<Rightarrow> bytes \<Rightarrow> token_id list" where
  "dec_token_list 0 b = []"
| "dec_token_list (Suc n) b = from_le_bytes (take 4 b) # dec_token_list n (drop 4 b)"

definition demo_v1_codec :: "operation list \<Rightarrow> v1_codec" where
  "demo_v1_codec v =
     \<lparr>enc_validated = (\<lambda>_. []), dec_validated = (\<lambda>_. Some v),
      enc_u64 = to_le_bytes 8, dec_u64 = (\<lambda>b. Some (from_le_bytes b)),
      enc_tokens = (\<lambda>ts. concat (map (to_le_bytes 4) ts)),
      dec_tokens = (\<lambda>b. Some (dec_token_list (length b div 4) b))\<rparr>"

lemma dec_token_list_enc [simp]:
  "dec_token_list (length ts) (concat (map (to_le_bytes 4) ts)) = ts"
  by (induction ts) simp_all

lemma length_enc_tokens [simp]: "length (concat (map (to_le_bytes 4) ts)) = 4 * length (ts :: token_id list)"
  by (induction ts) simp_all

interpretation demo_v1: v1_storage "map_storage (\<lambda>_. True)" "demo_v1_codec v" for v
  by unfold_locales (simp_all add: demo_v1_codec_def)

section \<open>Properties\<close>


definition demo_v1_parse :: "bytes \<Rightarrow> string + signed_operation_json list" where
  "demo_v1_parse _ = Inr [SMint 1 100 (lower_hex (demo_account 1)) (lower_hex (zero_bytes 64))]"

definition demo_v1_batch :: "operation list" where
  "demo_v1_batch = [Mint (demo_account 1) 1 100]"

definition demo_v1_ops :: "signed_operation list" where
  "demo_v1_ops = [\<lparr>operation = Mint (demo_account 1) 1 100, signature = zero_bytes 64\<rparr>]"

lemma demo_v1_parses: "parse_signed_operations demo_v1_parse payload = Inr (Inr demo_v1_ops)"
  by (simp add: parse_signed_operations_def demo_v1_parse_def decode_account_def decode_signature_def
      decode_hex_lower demo_v1_ops_def)

lemma demo_v1_plausible: "filter (plausible C) demo_v1_ops = demo_v1_ops"
  by (simp add: demo_v1_ops_def plausible_def)


text \<open>
  C15. On storage that takes every write, a round of the first service, refinement and then
  accumulation of the output, leaves the content that the second service's transition function
  computes over the same storage from the operations kept.
\<close>

theorem v1_round_is_transition:
  assumes "v1_storage H VC" "vk_try_from C (admin C) = Some admin_key"
    and "parse_signed_operations from_slice payload = Inr (Inr ops)"
    and codec: "\<forall>v. v1_validate C ops = Inr v \<longrightarrow> dec_validated VC (enc_validated VC v) = Some v"
  shows "\<exists>out s2. v1_refine C VC from_slice payload = Inr out \<and>
    state_transition (v1_ops H VC) (filter (plausible C) ops) s = Inr s2 \<and>
    same_content H (v1_on_work_item H VC \<lparr>wir_package = pkg, wir_result = Inr out\<rparr> s) s2"
proof -
  let ?v = "map operation (filter is_mint (filter (plausible C) ops)) @
      net_transfers (stage_ops (filter (plausible C) ops) [])"
  have v: "v1_validate C ops = Inr ?v" by (rule v1_validate_eq [OF assms(2)])
  have "v1_refine C VC from_slice payload = Inr (enc_validated VC ?v)"
    using assms(3) v by (simp add: v1_refine_def)
  moreover have "dec_validated VC (enc_validated VC ?v) = Some ?v" using codec v by blast
  ultimately show ?thesis
    using v1_storage.round_content [OF assms(1), of "filter (plausible C) ops" s]
    by (simp add: v1_on_work_item_def)
qed

lemma demo_v1_validates: "v1_validate demo_crypto demo_v1_ops = Inr demo_v1_batch"
  by (simp add: v1_validate_eq [of demo_crypto "admin demo_crypto"] demo_v1_plausible)
    (simp add: demo_v1_ops_def demo_v1_batch_def net_transfers_def)

theorem v1_round_is_transition_witness:
  "\<exists>out s2. v1_refine demo_crypto (demo_v1_codec demo_v1_batch) demo_v1_parse [] = Inr out \<and>
    state_transition (v1_ops (map_storage (\<lambda>_. True)) (demo_v1_codec demo_v1_batch)) demo_v1_ops empty_store
      = Inr s2"
proof -
  have "\<forall>v. v1_validate demo_crypto demo_v1_ops = Inr v \<longrightarrow>
      dec_validated (demo_v1_codec demo_v1_batch) (enc_validated (demo_v1_codec demo_v1_batch) v) = Some v"
    unfolding demo_v1_validates by (simp add: demo_v1_codec_def)
  then show ?thesis
    using v1_round_is_transition [OF demo_v1.v1_storage_axioms _ demo_v1_parses, of demo_crypto
        "admin demo_crypto" demo_v1_batch "[]" empty_store]
    by (auto simp: demo_v1_plausible)
qed

text \<open>The supply of a token in storage.\<close>

definition v1_supply :: "'s storage_api \<Rightarrow> v1_codec \<Rightarrow> 's \<Rightarrow> token_id \<Rightarrow> nat" where
  "v1_supply H VC s = token_supply account_slot (\<lambda>a t. v1_balance H VC (balance_key t a) s)"

definition v1_solvent :: "'s storage_api \<Rightarrow> v1_codec \<Rightarrow> 's \<Rightarrow> bool" where
  "v1_solvent H VC s \<longleftrightarrow>
     solvent account_slot (set (v1_tokens H VC s)) (\<lambda>a t. v1_balance H VC (balance_key t a) s)"


lemma demo_v1_empty: "v1_tokens (map_storage r) VC empty_store = []" "v1_balance (map_storage r) VC k empty_store = None"
  by (simp_all add: v1_tokens_def v1_balance_def api_get_def map_storage_def empty_store_def)


text \<open>
  C34. A write the host refuses is ignored, and the transfer goes on: when the sender's entry can
  be written and the receiver's cannot, the sender pays and nobody receives.
\<close>

theorem v1_transfer_loses_funds:
  assumes "storage_laws H" "\<forall>v. dec_u64 VC (enc_u64 VC v) = Some v"
    and "from \<noteq> to" "is_bytes 32 from" "is_bytes 32 to" "t \<in> set (v1_tokens H VC s)"
    and "v1_balance H VC (balance_key t from) s = Some b" "a \<le> b"
    and "set_storage H (balance_key t from) (enc_u64 VC (b - a)) s = Inr s1"
    and "\<forall>v. isl (set_storage H (balance_key t to) v s1)"
  shows "v1_balance H VC (balance_key t from) (v1_process_transfer H VC from to t a s) = Some (b - a) \<and>
    v1_balance H VC (balance_key t to) (v1_process_transfer H VC from to t a s)
      = v1_balance H VC (balance_key t to) s"
proof -
  have keys: "balance_key t to \<noteq> balance_key t from" using assms(3-5) by (simp add: is_bytes_def)
  obtain e where e: "set_storage H (balance_key t to) (enc_u64 VC
      (saturating_add (amount_of (v1_balance H VC (balance_key t to) s)) a)) s1 = Inl e"
    using assms(10) by (metis isl_def)
  have "\<not> b < a" using assms(8) by simp
  then have "v1_process_transfer H VC from to t a s = checkpoint H s1"
    using assms(6,7,9) e
    by (simp add: v1_process_transfer_def set_ignoring_def Let_def flip: amount_of_def)
  moreover have "v1_balance H VC k (checkpoint H s1) =
      (if k = balance_key t from then Some (b - a) else v1_balance H VC k s)" for k
    using storage_laws.get_set [OF assms(1,9)] storage_laws.get_checkpoint [OF assms(1)] assms(2)
    by (simp add: v1_balance_def)
  ultimately show ?thesis using keys by simp
qed

definition demo_full_store :: map_store where
  "demo_full_store = empty_store\<lparr>live := [KNOWN_TOKENS \<mapsto> to_le_bytes 4 (1 :: token_id),
     balance_key 1 (demo_account 1) \<mapsto> to_le_bytes 8 (100 :: u64)]\<rparr>"

theorem v1_transfer_loses_funds_witness:
  "v1_balance (map_storage (\<lambda>_. False)) (demo_v1_codec []) (balance_key 1 (demo_account 1))
      (v1_process_transfer (map_storage (\<lambda>_. False)) (demo_v1_codec []) (demo_account 1) (demo_account 2) 1 30
         demo_full_store) = Some 70 \<and>
   v1_balance (map_storage (\<lambda>_. False)) (demo_v1_codec []) (balance_key 1 (demo_account 2))
      (v1_process_transfer (map_storage (\<lambda>_. False)) (demo_v1_codec []) (demo_account 1) (demo_account 2) 1 30
         demo_full_store) = None"
proof -
  let ?H = "map_storage (\<lambda>_. False)" and ?k = "balance_key 1 (demo_account 1)"
  have token: "1 \<in> set (v1_tokens ?H (demo_v1_codec []) demo_full_store)"
    by (simp add: v1_tokens_def api_get_def map_storage_def demo_full_store_def demo_v1_codec_def)
  have bal: "v1_balance ?H (demo_v1_codec []) ?k demo_full_store = Some 100"
    "v1_balance ?H (demo_v1_codec []) (balance_key 1 (demo_account 2)) demo_full_store = None"
    by (simp_all add: v1_balance_def map_storage_def demo_full_store_def demo_v1_codec_def empty_store_def)
  have set: "set_storage ?H ?k v demo_full_store
      = Inr (demo_full_store\<lparr>live := (live demo_full_store)(?k \<mapsto> v)\<rparr>)" for v
    by (simp add: map_storage_def demo_full_store_def)
  have full: "isl (set_storage ?H (balance_key 1 (demo_account 2)) v
      (demo_full_store\<lparr>live := (live demo_full_store)(?k \<mapsto> w)\<rparr>))" for v w
    by (simp add: map_storage_def demo_full_store_def empty_store_def)
  show ?thesis
    using v1_transfer_loses_funds [OF map_laws.storage_laws_axioms _ _ _ _ token bal(1) _ set, of "demo_account 2" 30]
      full bal(2) by (simp add: demo_v1_codec_def)
qed

end
